theory Spec2Isabelle
  imports Main "HOL-Library.Word"
begin

unbundle bit_operations_syntax

section \<open>Node selection of the topology plugins: \<open>eval_nodes.c\<close>\<close>

text \<open>
  The development embeds \<open>src/plugins/topology/common/eval_nodes.c\<close>.  C \<open>int\<close> and
  \<open>int64_t\<close> locals are HOL integers (the counters stay far from the signed range, whose
  overflow C leaves undefined); the unsigned fields are words of their width, so that
  the conversions and the wrap-around of \<open>max_nodes--\<close> are the ones of the code.
\<close>

subsection \<open>Bit strings\<close>

text \<open>
  Modelled from the spec: the bitmap primitives of \<open>src/common/bitstring.c\<close> are not part
  of the file.  The spec lists them (test, set, clear, count, first and last set bit,
  superset, overlap, bulk AND, OR, AND-NOT, copy) over bitmaps indexed
  \<open>0..N-1\<close>; a bitmap is the set of its set indices, and \<open>N\<close> is passed where the
  primitive scans the whole string.
\<close>

type_synonym bitstr = "nat set"

definition bit_test :: "bitstr \<Rightarrow> nat \<Rightarrow> bool" where
  "bit_test b i = (i \<in> b)"

definition bit_set :: "bitstr \<Rightarrow> nat \<Rightarrow> bitstr" where
  "bit_set b i = insert i b"

definition bit_clear :: "bitstr \<Rightarrow> nat \<Rightarrow> bitstr" where
  "bit_clear b i = b - {i}"

definition bit_clear_all :: "bitstr \<Rightarrow> bitstr" where
  "bit_clear_all b = {}"

definition bit_and :: "bitstr \<Rightarrow> bitstr \<Rightarrow> bitstr" where
  "bit_and b1 b2 = b1 \<inter> b2"

definition bit_and_not :: "bitstr \<Rightarrow> bitstr \<Rightarrow> bitstr" where
  "bit_and_not b1 b2 = b1 - b2"

definition bit_or :: "bitstr \<Rightarrow> bitstr \<Rightarrow> bitstr" where
  "bit_or b1 b2 = b1 \<union> b2"

text \<open>\<open>bit_super_set b1 b2\<close>: every bit of \<open>b1\<close> is set in \<open>b2\<close>.\<close>

definition bit_super_set :: "bitstr \<Rightarrow> bitstr \<Rightarrow> bool" where
  "bit_super_set b1 b2 = (b1 \<subseteq> b2)"

definition bit_overlap_any :: "bitstr \<Rightarrow> bitstr \<Rightarrow> bool" where
  "bit_overlap_any b1 b2 = (b1 \<inter> b2 \<noteq> {})"

text \<open>The set indices below \<open>n\<close>, in increasing order (the order of \<open>next_node_bitmap\<close>).\<close>

definition bit_indices :: "nat \<Rightarrow> bitstr \<Rightarrow> nat list" where
  "bit_indices n b = filter (\<lambda>i. i \<in> b) [0..<n]"

definition bit_set_count :: "nat \<Rightarrow> bitstr \<Rightarrow> int" where
  "bit_set_count n b = int (length (bit_indices n b))"

text \<open>First and last set bit, \<open>-1\<close> when there is none.\<close>

definition bit_ffs :: "nat \<Rightarrow> bitstr \<Rightarrow> int" where
  "bit_ffs n b = (case bit_indices n b of [] \<Rightarrow> -1 | i # _ \<Rightarrow> int i)"

definition bit_fls :: "nat \<Rightarrow> bitstr \<Rightarrow> int" where
  "bit_fls n b = (case rev (bit_indices n b) of [] \<Rightarrow> -1 | i # _ \<Rightarrow> int i)"

subsection \<open>Records of the job, the nodes and the evaluation\<close>

text \<open>
  The declarations (\<open>slurmctld.h\<close>, \<open>eval_nodes.h\<close>, \<open>slurm.h\<close>) are outside the file.
  Field widths follow the code (comparisons with \<open>NO_VAL\<close> and \<open>NO_VAL16\<close>, the
  \<open>uint32_t\<close> and \<open>uint16_t\<close> locals the fields are copied to) and the data model of the
  spec.  The flag masks and sentinels of \<open>slurm.h\<close> are parameters.
\<close>

record slurm_consts =
  NO_VAL :: "32 word"
  NO_VAL16 :: "16 word"
  NO_VAL64 :: "64 word"
  INFINITE :: "32 word"
  INFINITE16 :: "16 word"
  CR_SOCKET :: "16 word"
  CR_LLN :: "16 word"
  CR_ONE_TASK_PER_CORE :: "16 word"
  SPREAD_JOB :: "64 word"
  PART_FLAG_LLN :: "32 word"

datatype rc = SLURM_SUCCESS | SLURM_ERROR

record job_details =
  d_min_cpus :: "32 word"
  d_max_cpus :: "32 word"
  d_min_gres_cpu :: "16 word"
  d_min_job_gres_cpu :: "32 word"
  d_num_tasks :: "32 word"
  d_min_nodes :: "32 word"
  d_max_nodes :: "32 word"
  d_pn_min_cpus :: "16 word"
  d_ntasks_per_tres :: "16 word"
  d_contiguous :: "16 word"
  d_whole_node :: "16 word"
  d_overcommit :: "8 word"
  d_req_node_bitmap :: "bitstr option"
  d_arbitrary_tpn :: "16 word list option"
  d_cpus_per_task :: "16 word"

subsection \<open>\<open>eval_nodes_get_rem_max_cpus\<close>\<close>

definition eval_nodes_get_rem_max_cpus :: "slurm_consts \<Rightarrow> job_details \<Rightarrow> int \<Rightarrow> int" where
  "eval_nodes_get_rem_max_cpus c details_ptr rem_nodes =
     (let rem_max_cpus = uint (d_min_cpus details_ptr);
          rem_max_cpus = (if d_max_cpus details_ptr \<noteq> NO_VAL c
                          then uint (d_max_cpus details_ptr) else rem_max_cpus);
          rem_max_cpus = (if d_min_gres_cpu details_ptr \<noteq> 0
                          then max rem_max_cpus (uint (d_min_gres_cpu details_ptr) * rem_nodes)
                          else rem_max_cpus);
          rem_max_cpus = (if d_min_job_gres_cpu details_ptr \<noteq> 0
                          then max rem_max_cpus (uint (d_min_job_gres_cpu details_ptr))
                          else rem_max_cpus)
      in rem_max_cpus)"


record part_record =
  p_flags :: "32 word"

record job_record =
  details :: job_details
  bit_flags :: "64 word"
  part_ptr :: "part_record option"
  req_switch :: "32 word"
  wait4switch :: "32 word"
  wait4switch_start :: int
  best_switch :: bool
  gres_list_req :: bool

text \<open>
  \<open>gres_list_req\<close> records whether the job's GRES list pointer is set; the list itself,
  with the per-node \<open>sock_gres_list\<close>s, is the opaque component \<open>gres\<close> of the
  evaluation below, read and written by the GRES collaborators only.
\<close>

record gres_mc_data =
  cpus_per_task :: "16 word"
  ntasks_per_node :: "16 word"
  ntasks_per_board :: "16 word"
  ntasks_per_socket :: "16 word"
  ntasks_per_core :: "16 word"

record node_record =
  sched_weight :: "64 word"
  cores :: "16 word"
  tot_cores :: "16 word"
  tot_sockets :: "16 word"
  boards :: "16 word"
  core_spec_cnt :: "16 word"
  cpus :: "16 word"

record avail_res =
  avail_cpus :: "16 word"
  max_cpus :: "16 word"
  avail_gpus :: "16 word"
  avail_res_cnt :: "16 word"
  gres_min_cpus :: "16 word"
  gres_max_tasks :: "16 word"

record switch_record =
  level :: int
  sw_node_bitmap :: bitstr
  parent :: nat
  sw_switches_dist :: "nat \<Rightarrow> 32 word"

record block_record =
  blk_node_bitmap :: bitstr

text \<open>
  The globals of the controller that the file reads, and the three toggles that
  \<open>eval_nodes\<close> reads from the configuration on its first call and keeps in statics.
  Every index below \<open>node_record_count\<close> has a node record.
\<close>

record globals =
  node_record_count :: nat
  node_record_table_ptr :: "nat \<Rightarrow> node_record"
  blocks_nodes_bitmap :: "bitstr option"
  switch_record_cnt :: int
  switch_record_table :: "switch_record list option"
  block_record_cnt :: int
  block_record_table :: "block_record list"
  bblock_node_cnt :: int
  block_levels :: bitstr
  block_levels_size :: nat
  idle_node_bitmap :: bitstr
  select_type_param :: "16 word"
  pack_serial_at_end :: bool
  have_dragonfly :: bool
  topo_optional :: bool

text \<open>
  \<open>topology_eval_t\<close>, followed by the locals of the strategy function at work
  (\<open>rem_cpus\<close> to \<open>all_done\<close>), which the loops of a strategy update together with it.
\<close>

record 'g topology_eval =
  node_map :: bitstr
  te_avail_cpus :: "16 word"
  te_max_nodes :: "32 word"
  te_min_nodes :: "32 word"
  te_req_nodes :: "32 word"
  cr_type :: "16 word"
  prefer_alloc_nodes :: bool
  job_ptr :: job_record
  mc_ptr :: gres_mc_data
  avail_res_array :: "nat \<Rightarrow> avail_res option"
  avail_core :: "nat \<Rightarrow> bitstr"
  gres :: 'g
  rem_cpus :: int
  rem_nodes :: int
  min_rem_nodes :: int
  rem_max_cpus :: int
  total_cpus :: int
  gres_per_job :: bool
  time_waiting :: int
  orig_node_map :: bitstr
  error_code :: rc
  all_done :: bool

subsection \<open>The dispatcher \<open>eval_nodes\<close>\<close>

datatype strategy = Block | Spread | Busy | LLN | Serial | Dfly | Topo | Consec

text \<open>
  Lines 3302 to 3358: the two checks that return \<open>SLURM_ERROR\<close> at once (\<open>None\<close> here),
  then the chain of tests, each returning the result of one strategy function.
\<close>

definition eval_nodes_strategy ::
  "slurm_consts \<Rightarrow> globals \<Rightarrow> 'g topology_eval \<Rightarrow> strategy option" where
  "eval_nodes_strategy c G topo_eval =
     (let details_ptr = details (job_ptr topo_eval) in
      if (word_of_int (bit_set_count (node_record_count G) (node_map topo_eval)) :: 32 word)
           < te_min_nodes topo_eval
      then None
      else if (case d_req_node_bitmap details_ptr of None \<Rightarrow> False
               | Some req \<Rightarrow> \<not> bit_super_set req (node_map topo_eval))
      then None
      else if (case blocks_nodes_bitmap G of None \<Rightarrow> False
               | Some b \<Rightarrow> bit_overlap_any b (node_map topo_eval))
      then Some Block
      else if bit_flags (job_ptr topo_eval) AND SPREAD_JOB c \<noteq> 0
      then Some Spread
      else if prefer_alloc_nodes topo_eval \<and> d_contiguous details_ptr = 0
      then Some Busy
      else if cr_type topo_eval AND CR_LLN c \<noteq> 0 \<or>
              (case part_ptr (job_ptr topo_eval) of None \<Rightarrow> False
               | Some p \<Rightarrow> p_flags p AND PART_FLAG_LLN c \<noteq> 0)
      then Some LLN
      else if pack_serial_at_end G \<and> d_min_cpus details_ptr = 1 \<and> te_req_nodes topo_eval = 1
      then Some Serial
      else if switch_record_cnt G \<noteq> 0 \<and> switch_record_table G \<noteq> None \<and>
              d_contiguous details_ptr = 0 \<and>
              (topo_optional G = False \<or> req_switch (job_ptr topo_eval) \<noteq> 0)
      then (if have_dragonfly G then Some Dfly else Some Topo)
      else Some Consec)"




subsection \<open>The collaborators\<close>

text \<open>
  The GRES scheduler (\<open>gres_sched.c\<close>), the GRES socket filter (\<open>gres_filter.c\<close>) and
  \<open>job_mgr_determine_cpus_per_core\<close> are called but not defined in the file: they are
  parameters.  \<open>gres_sched_add\<close> receives the node whose \<open>sock_gres_list\<close> it consumes and
  the CPU count it may lower; \<open>gres_filter_sock_core\<close> receives the node, \<open>rem_nodes\<close> and
  the values behind its pointer arguments (\<open>avail_cpus\<close>, \<open>min_tasks_this_node\<close>,
  \<open>max_tasks_this_node\<close>, \<open>min_cores_this_node\<close>, the node's core bitmap) and returns
  their new values.
\<close>

record 'g externals =
  gres_sched_init :: "'g \<Rightarrow> 'g \<times> bool"
  gres_sched_add :: "'g \<Rightarrow> nat \<Rightarrow> 16 word \<Rightarrow> 'g \<times> 16 word"
  gres_sched_test :: "'g \<Rightarrow> bool"
  gres_filter_sock_core ::
    "'g \<Rightarrow> nat \<Rightarrow> int \<Rightarrow> 16 word \<times> 32 word \<times> 32 word \<times> 32 word \<times> bitstr
       \<Rightarrow> 'g \<times> 16 word \<times> 32 word \<times> 32 word \<times> 32 word \<times> bitstr"
  job_mgr_determine_cpus_per_core :: "job_details \<Rightarrow> nat \<Rightarrow> int"

subsection \<open>Control flow of the loops\<close>

text \<open>
  How one pass through a loop body ends: it falls through or hits \<open>continue\<close> (\<open>Next\<close>),
  it leaves the loop by \<open>break\<close>, it jumps to the label \<open>fini\<close>, or it dereferences a
  null \<open>avail_res_array\<close> entry or fails the assertion on \<open>cpus_per_task\<close> (\<open>Fault\<close>).
\<close>

datatype 'a flow = Next 'a | Break 'a | Fini 'a | Fault

fun for_loop :: "(nat \<Rightarrow> 'a \<Rightarrow> 'a flow) \<Rightarrow> nat list \<Rightarrow> 'a \<Rightarrow> 'a flow" where
  "for_loop body [] s = Next s"
| "for_loop body (i # is) s =
     (case body i s of Next s' \<Rightarrow> for_loop body is s' | r \<Rightarrow> r)"

text \<open>The indices \<open>i_start, \<dots>, i_end\<close> of \<open>for (i = i_start; i <= i_end; i++)\<close>.\<close>

definition index_range :: "int \<Rightarrow> int \<Rightarrow> nat list" where
  "index_range i_start i_end = map nat [i_start..i_end]"

subsection \<open>\<open>eval_nodes_select_cores\<close> and \<open>eval_nodes_cpus_to_use\<close>\<close>

definition tasks_this_node ::
  "slurm_consts \<Rightarrow> gres_mc_data \<Rightarrow> job_details \<Rightarrow> node_record \<Rightarrow> 32 word \<times> 32 word" where
  "tasks_this_node c mc details_ptr node_ptr =
     (if ntasks_per_node mc \<noteq> 0
      then (ucast (ntasks_per_node mc), ucast (ntasks_per_node mc))
      else if ntasks_per_board mc \<noteq> 0
      then (ucast (ntasks_per_board mc),
            word_of_int (uint (ntasks_per_board mc) * uint (boards node_ptr)))
      else if ntasks_per_socket mc \<noteq> 0
      then (ucast (ntasks_per_socket mc),
            word_of_int (uint (ntasks_per_socket mc) * uint (tot_sockets node_ptr)))
      else if ntasks_per_core mc \<noteq> 0
      then (ucast (ntasks_per_core mc),
            word_of_int (uint (ntasks_per_core mc) *
                         (uint (tot_cores node_ptr) - uint (core_spec_cnt node_ptr))))
      else if d_ntasks_per_tres details_ptr \<noteq> 0 \<and> d_ntasks_per_tres details_ptr \<noteq> NO_VAL16 c
      then (if d_min_nodes details_ptr \<noteq> NO_VAL c \<and> d_min_nodes details_ptr \<noteq> 0 \<and>
               d_min_nodes details_ptr = d_max_nodes details_ptr
            then (d_num_tasks details_ptr div d_min_nodes details_ptr,
                  d_num_tasks details_ptr div d_min_nodes details_ptr)
            else (ucast (d_ntasks_per_tres details_ptr), d_num_tasks details_ptr))
      else if d_max_nodes details_ptr = 1
      then (if d_num_tasks details_ptr = NO_VAL c \<or> d_num_tasks details_ptr = 0
            then (1, NO_VAL c)
            else (d_num_tasks details_ptr, d_num_tasks details_ptr))
      else if d_num_tasks details_ptr = 1 \<or>
              (d_num_tasks details_ptr = d_min_nodes details_ptr \<and>
               d_num_tasks details_ptr = d_max_nodes details_ptr)
      then (1, 1)
      else (1, NO_VAL c))"

text \<open>
  \<open>avail_core[node_inx]\<close> is a bitmap over the cores of the node; its population count
  scans \<open>tot_cores\<close> bits.
\<close>

definition eval_nodes_select_cores ::
  "slurm_consts \<Rightarrow> globals \<Rightarrow> 'g externals \<Rightarrow> 'g topology_eval \<Rightarrow> nat \<Rightarrow> int
     \<Rightarrow> 'g topology_eval option" where
  "eval_nodes_select_cores c G X topo_eval node_inx rem_nodes0 =
     (let mc = mc_ptr topo_eval;
          details_ptr = details (job_ptr topo_eval);
          node_ptr = node_record_table_ptr G node_inx
      in if cpus_per_task mc = 0 then None
      else case avail_res_array topo_eval node_inx of
        None \<Rightarrow> None
      | Some ar \<Rightarrow>
         (let rem_nodes1 = min rem_nodes0 1;
              (min_tasks_this_node, max_tasks0) = tasks_this_node c mc details_ptr node_ptr;
              max_tasks1 =
                (if d_overcommit details_ptr = 0
                 then (let alloc_tasks = uint (avail_cpus ar) div uint (cpus_per_task mc)
                       in if (word_of_int alloc_tasks :: 32 word) < min_tasks_this_node then 0
                          else if max_tasks0 = NO_VAL c \<or>
                                  (word_of_int alloc_tasks :: 32 word) < max_tasks0
                          then word_of_int alloc_tasks
                          else max_tasks0)
                 else max_tasks0);
              (g, cpus1, min_tasks2, max_tasks2, min_cores_this_node, core_map) =
                (if gres_list_req (job_ptr topo_eval)
                 then gres_filter_sock_core X (gres topo_eval) node_inx rem_nodes1
                        (avail_cpus ar, min_tasks_this_node, max_tasks1, 0,
                         avail_core topo_eval node_inx)
                 else (gres topo_eval, avail_cpus ar, min_tasks_this_node, max_tasks1, 0,
                       avail_core topo_eval node_inx));
              cpus2 =
                (if max_tasks2 = 0 then 0
                 else if select_type_param G AND CR_ONE_TASK_PER_CORE c \<noteq> 0 \<and>
                         (ntasks_per_core mc = INFINITE16 c \<or> ntasks_per_core mc = 0) \<and>
                         d_min_gres_cpu details_ptr = 0
                 then word_of_int (bit_set_count (unat (tot_cores node_ptr)) core_map)
                 else cpus1);
              ar' = ar\<lparr> gres_min_cpus :=
                          word_of_int (job_mgr_determine_cpus_per_core X details_ptr node_inx *
                                       uint min_cores_this_node),
                        gres_max_tasks := ucast max_tasks2 \<rparr>
          in Some (topo_eval\<lparr> te_avail_cpus := cpus2,
                              avail_res_array := (avail_res_array topo_eval)(node_inx \<mapsto> ar'),
                              avail_core := (avail_core topo_eval)(node_inx := core_map),
                              gres := g \<rparr>)))"

definition eval_nodes_cpus_to_use ::
  "slurm_consts \<Rightarrow> globals \<Rightarrow> 'g externals \<Rightarrow> 'g topology_eval \<Rightarrow> nat \<Rightarrow> int \<Rightarrow> int
     \<Rightarrow> 'g topology_eval option" where
  "eval_nodes_cpus_to_use c G X topo_eval node_inx rem_max_cpus0 rem_nodes0 =
     (let details_ptr = details (job_ptr topo_eval)
      in if d_whole_node details_ptr = 1 then Some topo_eval
      else case avail_res_array topo_eval node_inx of
        None \<Rightarrow> None
      | Some ar \<Rightarrow>
         (let resv_cpus = max (rem_nodes0 - 1) 0;
              resv_cpus = resv_cpus * job_mgr_determine_cpus_per_core X details_ptr node_inx;
              resv_cpus = (if cr_type topo_eval AND CR_SOCKET c \<noteq> 0
                           then resv_cpus * uint (cores (node_record_table_ptr G node_inx))
                           else resv_cpus);
              rem_max_cpus1 = rem_max_cpus0 - resv_cpus;
              (cpus1, ar1) =
                (if uint (te_avail_cpus topo_eval) > rem_max_cpus1
                 then (let a = (word_of_int (max rem_max_cpus1 (uint (d_pn_min_cpus details_ptr)))
                                  :: 16 word);
                           a = (if gres_min_cpus ar \<noteq> 0 then max a (gres_min_cpus ar)
                                else max a (d_min_gres_cpu details_ptr))
                       in (a, ar\<lparr>avail_cpus := a\<rparr>))
                 else (te_avail_cpus topo_eval, ar));
              ar2 = ar1\<lparr>avail_res_cnt := avail_cpus ar1 + avail_gpus ar1\<rparr>
          in Some (topo_eval\<lparr> te_avail_cpus := cpus1,
                              avail_res_array := (avail_res_array topo_eval)(node_inx \<mapsto> ar2) \<rparr>)))"

text \<open>The call \<open>gres_sched_add(job_ptr->gres_list_req, sock_gres_list, &avail_cpus)\<close>.\<close>

definition gres_add :: "'g externals \<Rightarrow> 'g topology_eval \<Rightarrow> nat \<Rightarrow> 'g topology_eval" where
  "gres_add X topo_eval i =
     (let (g, a) = gres_sched_add X (gres topo_eval) i (te_avail_cpus topo_eval)
      in topo_eval\<lparr>gres := g, te_avail_cpus := a\<rparr>)"

text \<open>
  A node is probed by \<open>eval_nodes_select_cores\<close>, then \<open>eval_nodes_cpus_to_use\<close>, both
  with \<open>min_rem_nodes\<close>; the strategies of this section do it before every admission.
\<close>

definition probe ::
  "slurm_consts \<Rightarrow> globals \<Rightarrow> 'g externals \<Rightarrow> 'g topology_eval \<Rightarrow> nat
     \<Rightarrow> 'g topology_eval option" where
  "probe c G X s i =
     (case eval_nodes_select_cores c G X s i (min_rem_nodes s) of
        None \<Rightarrow> None
      | Some s1 \<Rightarrow> eval_nodes_cpus_to_use c G X s1 i (rem_max_cpus s1) (min_rem_nodes s1))"

text \<open>
  The bookkeeping of an admission: \<open>total_cpus += avail_cpus\<close>, the three CPU and node
  remainders and \<open>max_nodes\<close> go down.  Setting the bit is separate, as the required
  nodes keep the bit they have.
\<close>

definition count_node :: "'g topology_eval \<Rightarrow> 'g topology_eval" where
  "count_node s =
     s\<lparr> total_cpus := total_cpus s + uint (te_avail_cpus s),
        rem_cpus := rem_cpus s - uint (te_avail_cpus s),
        rem_max_cpus := rem_max_cpus s - uint (te_avail_cpus s),
        rem_nodes := rem_nodes s - 1,
        min_rem_nodes := min_rem_nodes s - 1,
        te_max_nodes := te_max_nodes s - 1 \<rparr>"

text \<open>The test \<open>(rem_nodes <= 0) && (rem_cpus <= 0) && gres_sched_test(\<dots>)\<close>.\<close>

definition satisfied :: "'g externals \<Rightarrow> 'g topology_eval \<Rightarrow> bool" where
  "satisfied X s = (rem_nodes s \<le> 0 \<and> rem_cpus s \<le> 0 \<and> gres_sched_test X (gres s))"

subsection \<open>The skeleton shared by busy, lln, serial and spread\<close>

text \<open>
  The four functions \<open>_eval_nodes_busy\<close> (lines 687 to 864), \<open>_eval_nodes_lln\<close> (2028 to
  2226), \<open>_eval_nodes_serial\<close> (2232 to 2396) and \<open>_eval_nodes_spread\<close> (2402 to 2563)
  have the same text, up to the wording of the log messages, from their declarations to
  the check of the CPU limit (for lln lines 2030 to 2128) and again from the end of the
  weight loop (lines 2213 to 2225).  These parts are embedded once.

  Lines 2030 to 2066: initialised declarations, the remainders, \<open>i_start\<close> and \<open>i_end\<close>.
\<close>

definition strategy_entry ::
  "slurm_consts \<Rightarrow> 'g externals \<Rightarrow> 'g topology_eval \<Rightarrow> 'g topology_eval" where
  "strategy_entry c X topo_eval =
     (let details_ptr = details (job_ptr topo_eval);
          s = topo_eval\<lparr> error_code := SLURM_ERROR, total_cpus := 0, all_done := False,
                          orig_node_map := node_map topo_eval, te_avail_cpus := 0 \<rparr>;
          s = s\<lparr> rem_cpus := sint (d_min_cpus details_ptr),
                 min_rem_nodes := sint (te_min_nodes s) \<rparr>;
          s = (if d_num_tasks details_ptr \<noteq> NO_VAL c \<and> d_num_tasks details_ptr \<noteq> 0
               then s\<lparr>te_max_nodes := min (te_max_nodes s) (d_num_tasks details_ptr)\<rparr>
               else s);
          (g, per_job) = gres_sched_init X (gres s);
          s = s\<lparr> gres := g, gres_per_job := per_job,
                 rem_nodes := (if per_job then sint (min (te_min_nodes s) (te_req_nodes s))
                               else sint (max (te_min_nodes s) (te_req_nodes s))) \<rparr>
      in s\<lparr>rem_max_cpus := eval_nodes_get_rem_max_cpus c details_ptr (rem_nodes s)\<rparr>)"

definition i_start_of :: "globals \<Rightarrow> 'g topology_eval \<Rightarrow> int" where
  "i_start_of G topo_eval = bit_ffs (node_record_count G) (node_map topo_eval)"

definition i_end_of :: "globals \<Rightarrow> 'g topology_eval \<Rightarrow> int" where
  "i_end_of G topo_eval =
     (if i_start_of G topo_eval \<ge> 0 then bit_fls (node_record_count G) (node_map topo_eval)
      else i_start_of G topo_eval - 1)"

text \<open>Lines 2068 to 2106: the body of the loop over the required nodes.\<close>

definition required_node_step ::
  "slurm_consts \<Rightarrow> globals \<Rightarrow> 'g externals \<Rightarrow> bitstr \<Rightarrow> nat \<Rightarrow> 'g topology_eval
     \<Rightarrow> 'g topology_eval flow" where
  "required_node_step c G X req_map i s =
     (if \<not> bit_test req_map i then Next (s\<lparr>node_map := bit_clear (node_map s) i\<rparr>)
      else case avail_res_array s i of
        None \<Rightarrow> Fini s
      | Some ar \<Rightarrow>
          if avail_cpus ar = 0 then Fini s
          else if te_max_nodes s \<le> 0 then Fini s
          else (case probe c G X s i of
                  None \<Rightarrow> Fault
                | Some s1 \<Rightarrow>
                   (let s2 = (if gres_per_job s1 then gres_add X s1 i else s1)
                    in if te_avail_cpus s2 \<le> 0 then Fini s2 else Next (count_node s2))))"

text \<open>Lines 2067 to 2120.\<close>

definition required_nodes ::
  "slurm_consts \<Rightarrow> globals \<Rightarrow> 'g externals \<Rightarrow> int \<Rightarrow> int \<Rightarrow> 'g topology_eval
     \<Rightarrow> 'g topology_eval flow" where
  "required_nodes c G X i_start i_end s =
     (case d_req_node_bitmap (details (job_ptr s)) of
        Some req_map \<Rightarrow>
          (case for_loop (required_node_step c G X req_map) (index_range i_start i_end) s of
             Next s1 \<Rightarrow>
               if satisfied X s1
               then Fini (s1\<lparr> error_code := SLURM_SUCCESS,
                              node_map := bit_and (node_map s1) req_map \<rparr>)
               else if te_max_nodes s1 \<le> 0 then Fini (s1\<lparr>error_code := SLURM_ERROR\<rparr>)
               else Next (s1\<lparr>orig_node_map := bit_and_not (orig_node_map s1) (node_map s1)\<rparr>)
           | r \<Rightarrow> r)
      | None \<Rightarrow> Next (s\<lparr>node_map := bit_clear_all (node_map s)\<rparr>))"

text \<open>
  Lines 2123 to 2128.  \<open>total_cpus\<close> is an \<open>int\<close> and \<open>max_cpus\<close> a \<open>uint32_t\<close>: the
  comparison is unsigned.
\<close>

definition max_cpu_limit ::
  "slurm_consts \<Rightarrow> 'g topology_eval \<Rightarrow> 'g topology_eval flow" where
  "max_cpu_limit c s =
     (if d_max_cpus (details (job_ptr s)) \<noteq> NO_VAL c \<and>
         (word_of_int (total_cpus s) :: 32 word) > d_max_cpus (details (job_ptr s))
      then Fini s else Next s)"

text \<open>
  Everything before the weight loop: the entry, the required nodes, the CPU limit, and
  \<open>if (topo_eval->max_nodes == 0) all_done = true\<close>.
\<close>

definition admit_required ::
  "slurm_consts \<Rightarrow> globals \<Rightarrow> 'g externals \<Rightarrow> 'g topology_eval \<Rightarrow> 'g topology_eval flow" where
  "admit_required c G X topo_eval =
     (let s = strategy_entry c X topo_eval
      in case required_nodes c G X (i_start_of G topo_eval) (i_end_of G topo_eval) s of
           Next s1 \<Rightarrow>
             (case max_cpu_limit c s1 of
                Next s2 \<Rightarrow> Next (if te_max_nodes s2 = 0 then s2\<lparr>all_done := True\<rparr> else s2)
              | r \<Rightarrow> r)
         | r \<Rightarrow> r)"

subsection \<open>The weight tiers\<close>

record node_weight_type =
  nwt_node_bitmap :: bitstr
  nwt_weight :: "64 word"

text \<open>
  \<open>_build_node_weight_list\<close>: one record per weight, in the order the weights are first
  met, then sorted by increasing weight.  The weights of the records differ, so the
  order after \<open>list_sort\<close> is the one of any sort.
\<close>

fun node_weight_add :: "node_weight_type list \<Rightarrow> 64 word \<Rightarrow> nat \<Rightarrow> node_weight_type list" where
  "node_weight_add [] w i = [\<lparr> nwt_node_bitmap = bit_set {} i, nwt_weight = w \<rparr>]"
| "node_weight_add (nwt # node_list) w i =
     (if nwt_weight nwt = w
      then nwt\<lparr>nwt_node_bitmap := bit_set (nwt_node_bitmap nwt) i\<rparr> # node_list
      else nwt # node_weight_add node_list w i)"

definition build_node_weight_list :: "globals \<Rightarrow> bitstr \<Rightarrow> node_weight_type list" where
  "build_node_weight_list G node_bitmap =
     sort_key nwt_weight
       (fold (\<lambda>i node_list. node_weight_add node_list
                               (sched_weight (node_record_table_ptr G i)) i)
             (bit_indices (node_record_count G) node_bitmap) [])"

text \<open>
  \<open>while (!all_done && (nwt = list_next(iter)))\<close> around the body of a strategy; \<open>None\<close>
  is a fault inside the body.
\<close>

fun weight_loop ::
  "(node_weight_type \<Rightarrow> 'g topology_eval \<Rightarrow> 'g topology_eval option)
     \<Rightarrow> node_weight_type list \<Rightarrow> 'g topology_eval \<Rightarrow> 'g topology_eval option" where
  "weight_loop body [] s = Some s"
| "weight_loop body (nwt # node_weight_list) s =
     (if all_done s then Some s
      else case body nwt s of None \<Rightarrow> None
           | Some s' \<Rightarrow> weight_loop body node_weight_list s')"

text \<open>Lines 2213 to 2221, and the return of \<open>error_code\<close>.\<close>

definition strategy_final ::
  "'g externals \<Rightarrow> 'g topology_eval \<Rightarrow> rc \<times> 'g topology_eval" where
  "strategy_final X s =
     (if error_code s = SLURM_SUCCESS then (SLURM_SUCCESS, s)
      else if rem_cpus s > 0 \<or> min_rem_nodes s > 0 \<or> \<not> gres_sched_test X (gres s)
      then (SLURM_ERROR, s\<lparr>node_map := bit_clear_all (node_map s), error_code := SLURM_ERROR\<rparr>)
      else (SLURM_SUCCESS, s\<lparr>error_code := SLURM_SUCCESS\<rparr>))"

text \<open>
  A strategy: the shared start, its own body for one weight tier run over the tiers of
  \<open>orig_node_map\<close>, the shared end.  A jump to \<open>fini\<close> returns \<open>error_code\<close> as it is.
\<close>

definition run_strategy ::
  "slurm_consts \<Rightarrow> globals \<Rightarrow> 'g externals
     \<Rightarrow> (node_weight_type \<Rightarrow> 'g topology_eval \<Rightarrow> 'g topology_eval option)
     \<Rightarrow> 'g topology_eval \<Rightarrow> (rc \<times> 'g topology_eval) option" where
  "run_strategy c G X body topo_eval =
     (case admit_required c G X topo_eval of
        Fault \<Rightarrow> None
      | Fini s \<Rightarrow> Some (error_code s, s)
      | Break s \<Rightarrow> Some (error_code s, s)
      | Next s \<Rightarrow>
          (case weight_loop body (build_node_weight_list G (orig_node_map s)) s of
             None \<Rightarrow> None
           | Some s' \<Rightarrow> Some (strategy_final X s')))"

text \<open>What the end of a \<open>for\<close> loop leaves to the code after it.\<close>

definition after_loop :: "'a flow \<Rightarrow> 'a option" where
  "after_loop r = (case r of Next s \<Rightarrow> Some s | Break s \<Rightarrow> Some s | Fini s \<Rightarrow> Some s
                   | Fault \<Rightarrow> None)"

text \<open>
  After the bit of an admitted node is set: lines 2198 to 2208, the same in the four
  functions.
\<close>

definition after_admission :: "'g externals \<Rightarrow> 'g topology_eval \<Rightarrow> 'g topology_eval flow" where
  "after_admission X s =
     (if satisfied X s then Break (s\<lparr>error_code := SLURM_SUCCESS, all_done := True\<rparr>)
      else if te_max_nodes s = 0 then Break (s\<lparr>all_done := True\<rparr>)
      else Next s)"

subsection \<open>\<open>_eval_nodes_spread\<close>\<close>

text \<open>Lines 2509 to 2546: the body of the loop over the indices, for one tier.\<close>

definition spread_step ::
  "slurm_consts \<Rightarrow> globals \<Rightarrow> 'g externals \<Rightarrow> node_weight_type \<Rightarrow> nat \<Rightarrow> 'g topology_eval
     \<Rightarrow> 'g topology_eval flow" where
  "spread_step c G X nwt i s =
     (case avail_res_array s i of
        None \<Rightarrow> Next s
      | Some ar \<Rightarrow>
          if avail_cpus ar = 0 then Next s
          else if \<not> bit_test (nwt_node_bitmap nwt) i \<or> bit_test (node_map s) i then Next s
          else (case probe c G X s i of
                  None \<Rightarrow> Fault
                | Some s1 \<Rightarrow>
                   (let s2 = (if gres_per_job s1 then gres_add X s1 i else s1)
                    in if te_avail_cpus s2 = 0 then Next s2
                       else after_admission X
                              ((count_node s2)\<lparr>node_map := bit_set (node_map s2) i\<rparr>))))"

definition eval_nodes_spread ::
  "slurm_consts \<Rightarrow> globals \<Rightarrow> 'g externals \<Rightarrow> 'g topology_eval
     \<Rightarrow> (rc \<times> 'g topology_eval) option" where
  "eval_nodes_spread c G X topo_eval =
     run_strategy c G X
       (\<lambda>nwt s. after_loop (for_loop (spread_step c G X nwt)
                   (index_range (i_start_of G topo_eval) (i_end_of G topo_eval)) s))
       topo_eval"

subsection \<open>\<open>_eval_nodes_busy\<close>\<close>

text \<open>
  Lines 801 to 846, for one value of \<open>idle_test\<close>.  The \<open>break\<close>s leave the loop over
  the indices only: the pass with \<open>idle_test = 1\<close> runs whatever the first pass did.
\<close>

definition busy_step ::
  "slurm_consts \<Rightarrow> globals \<Rightarrow> 'g externals \<Rightarrow> node_weight_type \<Rightarrow> int \<Rightarrow> nat
     \<Rightarrow> 'g topology_eval \<Rightarrow> 'g topology_eval flow" where
  "busy_step c G X nwt idle_test i s =
     (case avail_res_array s i of
        None \<Rightarrow> Next s
      | Some ar \<Rightarrow>
          if avail_cpus ar = 0 then Next s
          else if \<not> bit_test (nwt_node_bitmap nwt) i \<or> bit_test (node_map s) i then Next s
          else if (idle_test = 0 \<and> bit_test (idle_node_bitmap G) i) \<or>
                  (idle_test = 1 \<and> \<not> bit_test (idle_node_bitmap G) i) then Next s
          else (case probe c G X s i of
                  None \<Rightarrow> Fault
                | Some s1 \<Rightarrow>
                   (let s2 = (if gres_per_job s1 then gres_add X s1 i else s1)
                    in if te_avail_cpus s2 = 0 then Next s2
                       else after_admission X
                              ((count_node s2)\<lparr>node_map := bit_set (node_map s2) i\<rparr>))))"

definition busy_tier ::
  "slurm_consts \<Rightarrow> globals \<Rightarrow> 'g externals \<Rightarrow> nat list \<Rightarrow> node_weight_type
     \<Rightarrow> 'g topology_eval \<Rightarrow> 'g topology_eval option" where
  "busy_tier c G X idxs nwt s =
     (case after_loop (for_loop (busy_step c G X nwt 0) idxs s) of
        None \<Rightarrow> None
      | Some s1 \<Rightarrow> after_loop (for_loop (busy_step c G X nwt 1) idxs s1))"

definition eval_nodes_busy ::
  "slurm_consts \<Rightarrow> globals \<Rightarrow> 'g externals \<Rightarrow> 'g topology_eval
     \<Rightarrow> (rc \<times> 'g topology_eval) option" where
  "eval_nodes_busy c G X topo_eval =
     run_strategy c G X
       (busy_tier c G X (index_range (i_start_of G topo_eval) (i_end_of G topo_eval)))
       topo_eval"

subsection \<open>\<open>_eval_nodes_serial\<close>\<close>

text \<open>
  Lines 2339 to 2378: the loop runs from \<open>i_end\<close> down to \<open>i_start\<close> while
  \<open>max_nodes > 0\<close>; the node is counted and its bit set before \<open>gres_sched_add\<close>.
\<close>

definition serial_step ::
  "slurm_consts \<Rightarrow> globals \<Rightarrow> 'g externals \<Rightarrow> node_weight_type \<Rightarrow> nat \<Rightarrow> 'g topology_eval
     \<Rightarrow> 'g topology_eval flow" where
  "serial_step c G X nwt i s =
     (if \<not> te_max_nodes s > 0 then Break s
      else case avail_res_array s i of
        None \<Rightarrow> Next s
      | Some ar \<Rightarrow>
          if avail_cpus ar = 0 then Next s
          else if \<not> bit_test (nwt_node_bitmap nwt) i \<or> bit_test (node_map s) i then Next s
          else (case probe c G X s i of
                  None \<Rightarrow> Fault
                | Some s1 \<Rightarrow>
                    if te_avail_cpus s1 = 0 then Next s1
                    else (let s2 = (count_node s1)\<lparr>node_map := bit_set (node_map s1) i\<rparr>;
                              s3 = (if gres_per_job s2 then gres_add X s2 i else s2)
                          in after_admission X s3)))"

definition eval_nodes_serial ::
  "slurm_consts \<Rightarrow> globals \<Rightarrow> 'g externals \<Rightarrow> 'g topology_eval
     \<Rightarrow> (rc \<times> 'g topology_eval) option" where
  "eval_nodes_serial c G X topo_eval =
     run_strategy c G X
       (\<lambda>nwt s. after_loop (for_loop (serial_step c G X nwt)
                   (rev (index_range (i_start_of G topo_eval) (i_end_of G topo_eval))) s))
       topo_eval"

subsection \<open>\<open>_eval_nodes_lln\<close>\<close>

text \<open>
  Lines 2144 to 2176: one pass of the scan for the least loaded node of a tier.
  \<open>max_cpu_idx\<close> is \<open>None\<close> for \<open>-1\<close>.  The products of two 16-bit CPU counts are
  taken exactly (C computes them in \<open>int\<close>, which holds them below 46341 CPUs a node).
\<close>

definition lln_scan_step ::
  "slurm_consts \<Rightarrow> globals \<Rightarrow> 'g externals \<Rightarrow> node_weight_type \<Rightarrow> int \<Rightarrow> nat
     \<Rightarrow> 'g topology_eval \<times> nat option \<times> 16 word
     \<Rightarrow> ('g topology_eval \<times> nat option \<times> 16 word) flow" where
  "lln_scan_step c G X nwt last_max_cpu_cnt i =
     (\<lambda>(s, max_cpu_idx, max_cpu_avail_cpus).
        if \<not> bit_test (nwt_node_bitmap nwt) i \<or> bit_test (node_map s) i
        then Next (s, max_cpu_idx, max_cpu_avail_cpus)
        else (case probe c G X s i of
          None \<Rightarrow> Fault
        | Some s1 \<Rightarrow>
            if te_avail_cpus s1 = 0 then Next (s1, max_cpu_idx, max_cpu_avail_cpus)
            else (case avail_res_array s1 i of
              None \<Rightarrow> Fault
            | Some ar_i \<Rightarrow>
               (case (case max_cpu_idx of
                        None \<Rightarrow> Some True
                      | Some m \<Rightarrow>
                          (case avail_res_array s1 m of
                             None \<Rightarrow> None
                           | Some ar_m \<Rightarrow>
                               Some (uint (max_cpus ar_m) * uint (cpus (node_record_table_ptr G i))
                                     < uint (max_cpus ar_i) * uint (cpus (node_record_table_ptr G m)))))
                of None \<Rightarrow> Fault
                 | Some False \<Rightarrow> Next (s1, max_cpu_idx, max_cpu_avail_cpus)
                 | Some True \<Rightarrow>
                     if uint (max_cpus ar_i) = last_max_cpu_cnt
                     then Break (s1, Some i, te_avail_cpus s1)
                     else Next (s1, Some i, te_avail_cpus s1)))))"

text \<open>
  Lines 2182 to 2197: the node found is taken with the CPU count of its probe, the job's
  GRES are consumed, the counters go down and the bit is set.
\<close>

definition lln_admit ::
  "'g externals \<Rightarrow> 'g topology_eval \<Rightarrow> nat \<Rightarrow> 16 word \<Rightarrow> 'g topology_eval" where
  "lln_admit X s i max_cpu_avail_cpus =
     (let s1 = s\<lparr>te_avail_cpus := max_cpu_avail_cpus\<rparr>;
          s2 = (if gres_per_job s1 then gres_add X s1 i else s1)
      in (count_node s2)\<lparr>node_map := bit_set (node_map s2) i\<rparr>)"

text \<open>
  Lines 2141 to 2209: \<open>while (!all_done)\<close>, scanning, then admitting the node found;
  \<open>last_max_cpu_cnt\<close> becomes the \<open>max_cpus\<close> of that node.  Every turn that goes on sets
  a bit of \<open>node_map\<close> that was not set, so the loop ends.
\<close>

function lln_while ::
  "slurm_consts \<Rightarrow> globals \<Rightarrow> 'g externals \<Rightarrow> nat list \<Rightarrow> node_weight_type \<Rightarrow> int
     \<Rightarrow> 'g topology_eval \<Rightarrow> 'g topology_eval option" where
  "lln_while c G X idxs nwt last_max_cpu_cnt s =
     (if all_done s then Some s
      else case after_loop (for_loop (lln_scan_step c G X nwt last_max_cpu_cnt) idxs
                              (s, None, 0)) of
        None \<Rightarrow> None
      | Some (s1, max_cpu_idx, max_cpu_avail_cpus) \<Rightarrow>
         (case max_cpu_idx of
            None \<Rightarrow> Some s1
          | Some i \<Rightarrow>
              if max_cpu_avail_cpus = 0 then Some s1
              else (case avail_res_array (lln_admit X s1 i max_cpu_avail_cpus) i of
                      None \<Rightarrow> None
                    | Some ar \<Rightarrow>
                       (case after_admission X (lln_admit X s1 i max_cpu_avail_cpus) of
                          Next s4 \<Rightarrow> lln_while c G X idxs nwt (uint (max_cpus ar)) s4
                        | Break s4 \<Rightarrow> Some s4
                        | Fini s4 \<Rightarrow> Some s4
                        | Fault \<Rightarrow> None))))"
  by pat_completeness auto
termination
proof (relation "measure (\<lambda>(c, G, X, idxs, nwt, lmc, s).
                   length (filter (\<lambda>j. j \<notin> node_map s) idxs))", goal_cases)
  case 1
  show ?case by simp
next
  case prems: (2 c G X idxs nwt lmc s r s1 rest max_cpu_idx av i ar s4)
  have sc_map: "node_map t' = node_map t"
    if "eval_nodes_select_cores c G X t j n = Some t'" for t t' j n
    using that unfolding eval_nodes_select_cores_def Let_def case_prod_beta
    by (cases "cpus_per_task (mc_ptr t) = 0"; cases "avail_res_array t j") auto
  have cu_map: "node_map t' = node_map t"
    if "eval_nodes_cpus_to_use c G X t j m n = Some t'" for t t' j m n
    using that unfolding eval_nodes_cpus_to_use_def Let_def case_prod_beta
    by (cases "d_whole_node (details (job_ptr t)) = 1"; cases "avail_res_array t j") auto
  have probe_map: "node_map t' = node_map t" if "probe c G X t j = Some t'" for t t' j
    using that sc_map cu_map by (fastforce simp: probe_def split: option.splits)
  have step: "node_map t' = node_map t \<and> (m' = m \<or> (m' = Some j \<and> j \<notin> node_map t))"
    if *: "after_loop (lln_scan_step c G X nwt lmc j (t, m, a)) = Some (t', m', a')"
    for t t' m m' a a' j
  proof (cases "\<not> bit_test (nwt_node_bitmap nwt) j \<or> bit_test (node_map t) j")
    case True
    with * show ?thesis by (simp add: lln_scan_step_def after_loop_def)
  next
    case False
    then have nj: "j \<notin> node_map t" by (simp add: bit_test_def)
    show ?thesis
    proof (cases "probe c G X t j")
      case None
      with * False show ?thesis by (simp add: lln_scan_step_def after_loop_def)
    next
      case (Some t1)
      then have m1: "node_map t1 = node_map t" by (rule probe_map)
      from * False Some show ?thesis
        using m1 nj
        by (auto simp: lln_scan_step_def after_loop_def
            split: if_splits option.splits bool.splits)
    qed
  qed
  have loop: "node_map t' = node_map t \<and>
              (m' = m \<or> (\<exists>j \<in> set js. m' = Some j \<and> j \<notin> node_map t))"
    if "after_loop (for_loop (lln_scan_step c G X nwt lmc) js (t, m, a)) = Some (t', m', a')"
    for js t t' m m' a a'
    using that
  proof (induction js arbitrary: t m a)
    case Nil
    then show ?case by (simp add: after_loop_def)
  next
    case (Cons j js)
    show ?case
    proof (cases "lln_scan_step c G X nwt lmc j (t, m, a)")
      case (Next x)
      obtain t1 m1 a1 where x: "x = (t1, m1, a1)" by (cases x)
      from Next x have "after_loop (lln_scan_step c G X nwt lmc j (t, m, a)) = Some (t1, m1, a1)"
        by (simp add: after_loop_def)
      note s1 = step [OF this]
      from Cons.prems Next x
      have "after_loop (for_loop (lln_scan_step c G X nwt lmc) js (t1, m1, a1)) = Some (t', m', a')"
        by simp
      note ih = Cons.IH [OF this]
      show ?thesis using s1 ih by auto
    next
      case (Break x)
      with Cons.prems
      have "after_loop (lln_scan_step c G X nwt lmc j (t, m, a)) = Some (t', m', a')"
        by (simp add: after_loop_def)
      from step [OF this] show ?thesis by auto
    next
      case (Fini x)
      with Cons.prems
      have "after_loop (lln_scan_step c G X nwt lmc j (t, m, a)) = Some (t', m', a')"
        by (simp add: after_loop_def)
      from step [OF this] show ?thesis by auto
    next
      case Fault
      with Cons.prems show ?thesis by (simp add: after_loop_def)
    qed
  qed
  from prems(2,3,4,5)
  have "after_loop (for_loop (lln_scan_step c G X nwt lmc) idxs (s, None, 0)) = Some (s1, Some i, av)"
    by auto
  from loop [OF this] have s1: "node_map s1 = node_map s" and i: "i \<in> set idxs" "i \<notin> node_map s"
    by auto
  have "node_map s4 = insert i (node_map s1)"
    using prems(8)
    by (auto simp: after_admission_def lln_admit_def Let_def count_node_def gres_add_def bit_set_def
        split: if_splits prod.splits)
  then have eq: "filter (\<lambda>j. j \<notin> node_map s4) idxs =
             filter (\<lambda>j. j \<noteq> i) (filter (\<lambda>j. j \<notin> node_map s) idxs)"
    using s1 by (auto intro: filter_cong)
  have "i \<in> set (filter (\<lambda>j. j \<notin> node_map s) idxs)"
    using i by simp
  then have "length (filter (\<lambda>j. j \<noteq> i) (filter (\<lambda>j. j \<notin> node_map s) idxs))
             < length (filter (\<lambda>j. j \<notin> node_map s) idxs)"
    by (rule length_filter_less) simp
  then show ?case using eq by simp
qed

definition eval_nodes_lln ::
  "slurm_consts \<Rightarrow> globals \<Rightarrow> 'g externals \<Rightarrow> 'g topology_eval
     \<Rightarrow> (rc \<times> 'g topology_eval) option" where
  "eval_nodes_lln c G X topo_eval =
     run_strategy c G X
       (\<lambda>nwt s. lln_while c G X
                   (index_range (i_start_of G topo_eval) (i_end_of G topo_eval)) nwt (- 1) s)
       topo_eval"

subsection \<open>\<open>eval_nodes\<close>\<close>

text \<open>
  Lines 3302 to 3358 with the strategy functions: \<open>eval_nodes\<close> returns what the chosen
  strategy returns.  \<open>others\<close> stands for the four strategy functions \<open>_eval_nodes_block\<close>,
  \<open>_eval_nodes_dfly\<close>, \<open>_eval_nodes_topo\<close> and \<open>_eval_nodes_consec\<close>, whose bodies
  are not embedded here beyond their entry and their last block.
\<close>

definition eval_nodes ::
  "slurm_consts \<Rightarrow> globals \<Rightarrow> 'g externals
     \<Rightarrow> (strategy \<Rightarrow> 'g topology_eval \<Rightarrow> (rc \<times> 'g topology_eval) option)
     \<Rightarrow> 'g topology_eval \<Rightarrow> (rc \<times> 'g topology_eval) option" where
  "eval_nodes c G X others topo_eval =
     (case eval_nodes_strategy c G topo_eval of
        None \<Rightarrow> Some (SLURM_ERROR, topo_eval)
      | Some Spread \<Rightarrow> eval_nodes_spread c G X topo_eval
      | Some Busy \<Rightarrow> eval_nodes_busy c G X topo_eval
      | Some LLN \<Rightarrow> eval_nodes_lln c G X topo_eval
      | Some Serial \<Rightarrow> eval_nodes_serial c G X topo_eval
      | Some st \<Rightarrow> others st topo_eval)"

subsection \<open>Entry of the topology strategies and of consec and block\<close>

text \<open>
  \<open>_eval_nodes_dfly\<close>, lines 1452 to 1474; \<open>time_now\<close> is the value of \<open>time(NULL)\<close>.
\<close>

definition eval_nodes_dfly_entry ::
  "slurm_consts \<Rightarrow> 'g externals \<Rightarrow> int \<Rightarrow> 'g topology_eval \<Rightarrow> 'g topology_eval" where
  "eval_nodes_dfly_entry c X time_now topo_eval =
     (let s = topo_eval\<lparr>te_avail_cpus := 0, time_waiting := 0\<rparr>;
          s = (if req_switch (job_ptr s) > 1
               then s\<lparr>job_ptr := (job_ptr s)\<lparr>req_switch := 0\<rparr>\<rparr> else s);
          s = (if req_switch (job_ptr s) \<noteq> 0
               then (let j = (if wait4switch_start (job_ptr s) = 0
                              then (job_ptr s)\<lparr>wait4switch_start := time_now\<rparr>
                              else job_ptr s)
                     in s\<lparr>job_ptr := j, time_waiting := time_now - wait4switch_start j\<rparr>)
               else s);
          details_ptr = details (job_ptr s);
          s = s\<lparr> rem_cpus := sint (d_min_cpus details_ptr),
                 min_rem_nodes := sint (te_min_nodes s) \<rparr>;
          (g, per_job) = gres_sched_init X (gres s);
          s = s\<lparr> gres := g, gres_per_job := per_job,
                 rem_nodes := (if per_job then sint (min (te_min_nodes s) (te_req_nodes s))
                               else sint (max (te_min_nodes s) (te_req_nodes s))) \<rparr>
      in s\<lparr>rem_max_cpus := eval_nodes_get_rem_max_cpus c details_ptr (rem_nodes s)\<rparr>)"

text \<open>\<open>_eval_nodes_topo\<close>, lines 2689 to 2706.\<close>

definition eval_nodes_topo_entry ::
  "slurm_consts \<Rightarrow> 'g externals \<Rightarrow> int \<Rightarrow> 'g topology_eval \<Rightarrow> 'g topology_eval" where
  "eval_nodes_topo_entry c X time_now topo_eval =
     (let s = topo_eval\<lparr>te_avail_cpus := 0, time_waiting := 0\<rparr>;
          s = (if req_switch (job_ptr s) \<noteq> 0
               then (let j = (if wait4switch_start (job_ptr s) = 0
                              then (job_ptr s)\<lparr>wait4switch_start := time_now\<rparr>
                              else job_ptr s)
                     in s\<lparr>job_ptr := j, time_waiting := time_now - wait4switch_start j\<rparr>)
               else s);
          details_ptr = details (job_ptr s);
          s = s\<lparr> rem_cpus := sint (d_min_cpus details_ptr),
                 min_rem_nodes := sint (te_min_nodes s) \<rparr>;
          (g, per_job) = gres_sched_init X (gres s);
          s = s\<lparr> gres := g, gres_per_job := per_job,
                 rem_nodes := (if per_job then sint (min (te_min_nodes s) (te_req_nodes s))
                               else sint (max (te_min_nodes s) (te_req_nodes s))) \<rparr>
      in s\<lparr>rem_max_cpus := eval_nodes_get_rem_max_cpus c details_ptr (rem_nodes s)\<rparr>)"

text \<open>\<open>_eval_nodes_consec\<close>, lines 899 and 916 to 923.\<close>

definition eval_nodes_consec_entry ::
  "slurm_consts \<Rightarrow> 'g externals \<Rightarrow> 'g topology_eval \<Rightarrow> 'g topology_eval" where
  "eval_nodes_consec_entry c X topo_eval =
     (let s = topo_eval\<lparr>te_avail_cpus := 0, error_code := SLURM_ERROR, total_cpus := 0\<rparr>;
          details_ptr = details (job_ptr s);
          s = s\<lparr> rem_cpus := sint (d_min_cpus details_ptr),
                 min_rem_nodes := sint (te_min_nodes s) \<rparr>;
          (g, per_job) = gres_sched_init X (gres s);
          s = s\<lparr> gres := g, gres_per_job := per_job,
                 rem_nodes := (if per_job then sint (min (te_min_nodes s) (te_req_nodes s))
                               else sint (max (te_min_nodes s) (te_req_nodes s))) \<rparr>
      in s\<lparr>rem_max_cpus := eval_nodes_get_rem_max_cpus c details_ptr (rem_nodes s)\<rparr>)"

text \<open>\<open>_eval_nodes_block\<close>, lines 147 to 156 (\<open>/* Always use min_nodes */\<close>).\<close>

definition eval_nodes_block_entry ::
  "slurm_consts \<Rightarrow> 'g externals \<Rightarrow> 'g topology_eval \<Rightarrow> 'g topology_eval" where
  "eval_nodes_block_entry c X topo_eval =
     (let s = topo_eval\<lparr>te_avail_cpus := 0\<rparr>;
          details_ptr = details (job_ptr s);
          s = s\<lparr> rem_cpus := sint (d_min_cpus details_ptr),
                 min_rem_nodes := sint (te_min_nodes s) \<rparr>;
          (g, per_job) = gres_sched_init X (gres s);
          s = s\<lparr> gres := g, gres_per_job := per_job,
                 rem_nodes := sint (min (te_min_nodes s) (te_req_nodes s)) \<rparr>
      in s\<lparr>rem_max_cpus := eval_nodes_get_rem_max_cpus c details_ptr (rem_nodes s)\<rparr>)"

subsection \<open>The label \<open>fini\<close> of the topology strategies\<close>






subsection \<open>Predicates of the proofs\<close>

text \<open>What the body of a strategy does to \<open>node_map\<close> while it works on one weight tier.\<close>

definition adds_from :: "bitstr \<Rightarrow> 'g topology_eval \<Rightarrow> 'g topology_eval \<Rightarrow> bool" where
  "adds_from B t t' =
     (job_ptr t' = job_ptr t \<and> node_map t \<subseteq> node_map t' \<and> node_map t' \<subseteq> node_map t \<union> B)"

text \<open>
  While the required nodes are admitted, bits are only cleared, and never the bit of a
  required node.
\<close>

definition keeps :: "bitstr \<Rightarrow> 'g topology_eval \<Rightarrow> 'g topology_eval \<Rightarrow> bool" where
  "keeps req t t' =
     (job_ptr t' = job_ptr t \<and> orig_node_map t' = orig_node_map t \<and>
      error_code t' = error_code t \<and> all_done t' = all_done t \<and>
      node_map t' \<subseteq> node_map t \<and> node_map t \<inter> req \<subseteq> node_map t')"

subsection \<open>Concrete runs\<close>

text \<open>The constants of \<open>slurm.h\<close> at their usual values, for concrete runs.\<close>

definition slurm_h :: slurm_consts where
  "slurm_h = \<lparr> NO_VAL = 0xfffffffe, NO_VAL16 = 0xfffe, NO_VAL64 = 0xfffffffffffffffe,
               INFINITE = 0xffffffff, INFINITE16 = 0xffff,
               CR_SOCKET = 0x0002, CR_LLN = 0x4000, CR_ONE_TASK_PER_CORE = 0x0100,
               SPREAD_JOB = 0x2000, PART_FLAG_LLN = 0x0020 \<rparr>"

definition details0 :: job_details where
  "details0 = \<lparr> d_min_cpus = 1, d_max_cpus = 0xfffffffe, d_min_gres_cpu = 0,
                d_min_job_gres_cpu = 0, d_num_tasks = 0, d_min_nodes = 1,
                d_max_nodes = 0, d_pn_min_cpus = 1, d_ntasks_per_tres = 0,
                d_contiguous = 0, d_whole_node = 0, d_overcommit = 0,
                d_req_node_bitmap = None, d_arbitrary_tpn = None, d_cpus_per_task = 1 \<rparr>"

definition node0 :: node_record where
  "node0 = \<lparr> sched_weight = 1, cores = 4, tot_cores = 4, tot_sockets = 1, boards = 1,
             core_spec_cnt = 0, cpus = 4 \<rparr>"

definition job0 :: job_record where
  "job0 = \<lparr> details = details0, bit_flags = 0, part_ptr = None, req_switch = 0,
            wait4switch = 0, wait4switch_start = 0, best_switch = False,
            gres_list_req = False \<rparr>"

definition mc0 :: gres_mc_data where
  "mc0 = \<lparr> cpus_per_task = 1, ntasks_per_node = 0, ntasks_per_board = 0,
           ntasks_per_socket = 0, ntasks_per_core = 0 \<rparr>"

definition res0 :: avail_res where
  "res0 = \<lparr> avail_cpus = 4, max_cpus = 4, avail_gpus = 0, avail_res_cnt = 4,
            gres_min_cpus = 0, gres_max_tasks = 0 \<rparr>"

definition G0 :: globals where
  "G0 = \<lparr> node_record_count = 3, node_record_table_ptr = (\<lambda>i. node0),
          blocks_nodes_bitmap = None, switch_record_cnt = 0, switch_record_table = None,
          block_record_cnt = 0, block_record_table = [], bblock_node_cnt = 1,
          block_levels = {}, block_levels_size = 16,
          idle_node_bitmap = {}, select_type_param = 0, pack_serial_at_end = False,
          have_dragonfly = False, topo_optional = False \<rparr>"

definition te0 :: "unit topology_eval" where
  "te0 = \<lparr> node_map = {0, 1, 2}, te_avail_cpus = 0, te_max_nodes = 3, te_min_nodes = 1,
           te_req_nodes = 1, cr_type = 0, prefer_alloc_nodes = False, job_ptr = job0,
           mc_ptr = mc0, avail_res_array = (\<lambda>i. if i < 3 then Some res0 else None),
           avail_core = (\<lambda>i. {}), gres = (),
           rem_cpus = 0, rem_nodes = 0, min_rem_nodes = 0, rem_max_cpus = 0, total_cpus = 0,
           gres_per_job = False, time_waiting = 0, orig_node_map = {},
           error_code = SLURM_ERROR, all_done = False \<rparr>"

definition X0 :: "unit externals" where
  "X0 = \<lparr> gres_sched_init = (\<lambda>g. (g, False)), gres_sched_add = (\<lambda>g i a. (g, a)),
          gres_sched_test = (\<lambda>g. True), gres_filter_sock_core = (\<lambda>g i n v. (g, v)),
          job_mgr_determine_cpus_per_core = (\<lambda>d i. 1) \<rparr>"

text \<open>The return code of a run and the selected nodes, in increasing order.\<close>

definition outcome ::
  "globals \<Rightarrow> (rc \<times> 'g topology_eval) option \<Rightarrow> (rc \<times> nat list) option" where
  "outcome G r = map_option (\<lambda>(e, s). (e, bit_indices (node_record_count G) (node_map s))) r"

text \<open>Node 1 is required and has no CPU left; the job asks for one node.\<close>

definition te_required_down :: "unit topology_eval" where
  "te_required_down =
     te0\<lparr> job_ptr := job0\<lparr>details := details0\<lparr>d_req_node_bitmap := Some {1}\<rparr>\<rparr>,
          avail_res_array := (\<lambda>i. if i = 1 then Some (res0\<lparr>avail_cpus := 0\<rparr>)
                                 else if i < 3 then Some res0 else None) \<rparr>"

text \<open>Node 1 is required and \<open>max_nodes\<close> is zero.\<close>

definition te_required_over :: "unit topology_eval" where
  "te_required_over =
     te0\<lparr> job_ptr := job0\<lparr>details := details0\<lparr>d_req_node_bitmap := Some {1}\<rparr>\<rparr>,
          te_max_nodes := 0 \<rparr>"

text \<open>No required node; the job asks for more CPUs than the three nodes have.\<close>

definition te_hungry :: "unit topology_eval" where
  "te_hungry = te0\<lparr> job_ptr := job0\<lparr>details := details0\<lparr>d_min_cpus := 100\<rparr>\<rparr> \<rparr>"

text \<open>
  Three nodes of one weight: node 0 with 4 CPUs of 4 available, node 1 with 4 of 8,
  node 2 with 3 of 4; the job asks for two nodes.
\<close>

definition G_mixed :: globals where
  "G_mixed = G0\<lparr> node_record_table_ptr := (\<lambda>i. if i = 1 then node0\<lparr>cpus := 8\<rparr> else node0) \<rparr>"

definition te_mixed :: "unit topology_eval" where
  "te_mixed =
     te0\<lparr> te_min_nodes := 2, te_req_nodes := 2,
          avail_res_array := (\<lambda>i. if i = 2 then Some (res0\<lparr>avail_cpus := 3, max_cpus := 3\<rparr>)
                                 else if i < 2 then Some res0 else None) \<rparr>"

text \<open>
  The scenario of the spec: node A (index 0) with 4 CPUs of 8 available, node B (index 1)
  with 3 of 4, both of weight 1; the job asks for one node and one CPU.
\<close>

definition G_ab :: globals where
  "G_ab = G0\<lparr> node_record_count := 2,
              node_record_table_ptr := (\<lambda>i. if i = 0 then node0\<lparr>cpus := 8\<rparr> else node0) \<rparr>"

definition te_ab :: "unit topology_eval" where
  "te_ab =
     te0\<lparr> node_map := {0, 1}, te_max_nodes := 2,
          avail_res_array := (\<lambda>i. if i = 0 then Some (res0\<lparr>avail_cpus := 4, max_cpus := 4\<rparr>)
                                 else if i = 1 then Some (res0\<lparr>avail_cpus := 3, max_cpus := 3\<rparr>)
                                 else None) \<rparr>"






section \<open>Properties\<close>




subsection \<open>Strategy selection\<close>





subsection \<open>Invariants of the strategies\<close>

subsection \<open>What the probes leave unchanged\<close>

lemma select_cores_frame:
  assumes "eval_nodes_select_cores c G X t j n = Some t'"
  shows "\<exists>a r k g. t' = t\<lparr>te_avail_cpus := a, avail_res_array := r, avail_core := k, gres := g\<rparr>"
  using assms unfolding eval_nodes_select_cores_def Let_def case_prod_beta
  by (cases "cpus_per_task (mc_ptr t) = 0"; cases "avail_res_array t j") auto

lemma cpus_to_use_frame:
  assumes "eval_nodes_cpus_to_use c G X t j m n = Some t'"
  shows "\<exists>a r. t' = t\<lparr>te_avail_cpus := a, avail_res_array := r\<rparr>"
proof (cases "d_whole_node (details (job_ptr t)) = 1")
  case True
  with assms have "t' = t" by (simp add: eval_nodes_cpus_to_use_def)
  then have "t' = t\<lparr>te_avail_cpus := te_avail_cpus t, avail_res_array := avail_res_array t\<rparr>"
    by simp
  then show ?thesis by blast
next
  case False
  with assms show ?thesis
    unfolding eval_nodes_cpus_to_use_def Let_def case_prod_beta
    by (cases "avail_res_array t j") auto
qed

lemma probe_frame:
  assumes "probe c G X t j = Some t'"
  shows "\<exists>a r k g. t' = t\<lparr>te_avail_cpus := a, avail_res_array := r, avail_core := k, gres := g\<rparr>"
proof -
  from assms obtain t1 where 1: "eval_nodes_select_cores c G X t j (min_rem_nodes t) = Some t1"
    and 2: "eval_nodes_cpus_to_use c G X t1 j (rem_max_cpus t1) (min_rem_nodes t1) = Some t'"
    by (auto simp: probe_def split: option.splits)
  from select_cores_frame [OF 1] obtain a r k g
    where t1: "t1 = t\<lparr>te_avail_cpus := a, avail_res_array := r, avail_core := k, gres := g\<rparr>"
    by blast
  from cpus_to_use_frame [OF 2] obtain a' r'
    where "t' = t1\<lparr>te_avail_cpus := a', avail_res_array := r'\<rparr>" by blast
  with t1 have "t' = t\<lparr>te_avail_cpus := a', avail_res_array := r', avail_core := k, gres := g\<rparr>"
    by simp
  then show ?thesis by blast
qed

lemma gres_add_eq:
  "gres_add X t j = t\<lparr>gres := fst (gres_sched_add X (gres t) j (te_avail_cpus t)),
                        te_avail_cpus := snd (gres_sched_add X (gres t) j (te_avail_cpus t))\<rparr>"
  by (simp add: gres_add_def case_prod_beta)

text \<open>The fields a strategy's bookkeeping relies on, and which no probe touches.\<close>

lemma probe_fields:
  assumes "probe c G X t j = Some t'"
  shows "node_map t' = node_map t" "orig_node_map t' = orig_node_map t"
    "job_ptr t' = job_ptr t" "error_code t' = error_code t" "all_done t' = all_done t"
    "te_max_nodes t' = te_max_nodes t" "rem_nodes t' = rem_nodes t" "rem_cpus t' = rem_cpus t"
    "min_rem_nodes t' = min_rem_nodes t" "gres_per_job t' = gres_per_job t"
  using probe_frame [OF assms] by auto

lemma gres_add_fields:
  "node_map (gres_add X t j) = node_map t" "orig_node_map (gres_add X t j) = orig_node_map t"
  "job_ptr (gres_add X t j) = job_ptr t" "error_code (gres_add X t j) = error_code t"
  "all_done (gres_add X t j) = all_done t" "te_max_nodes (gres_add X t j) = te_max_nodes t"
  "rem_nodes (gres_add X t j) = rem_nodes t" "rem_cpus (gres_add X t j) = rem_cpus t"
  "min_rem_nodes (gres_add X t j) = min_rem_nodes t"
  "gres_per_job (gres_add X t j) = gres_per_job t"
  "avail_res_array (gres_add X t j) = avail_res_array t"
  by (simp_all add: gres_add_eq)

lemma count_node_fields:
  "node_map (count_node t) = node_map t" "orig_node_map (count_node t) = orig_node_map t"
  "job_ptr (count_node t) = job_ptr t" "error_code (count_node t) = error_code t"
  "all_done (count_node t) = all_done t" "gres (count_node t) = gres t"
  "te_avail_cpus (count_node t) = te_avail_cpus t"
  "avail_res_array (count_node t) = avail_res_array t"
  "gres_per_job (count_node t) = gres_per_job t"
  by (simp_all add: count_node_def)

subsection \<open>Loops\<close>

lemma for_loop_inv:
  assumes "after_loop (for_loop body js s) = Some s'" and "P s"
    and "\<And>i t t'. i \<in> set js \<Longrightarrow> P t \<Longrightarrow> after_loop (body i t) = Some t' \<Longrightarrow> P t'"
  shows "P s'"
  using assms
proof (induction js arbitrary: s)
  case Nil
  then show ?case by (simp add: after_loop_def)
next
  case (Cons j js)
  show ?case
  proof (cases "body j s")
    case (Next t)
    then have "after_loop (body j s) = Some t" by (simp add: after_loop_def)
    then have "P t" using Cons.prems(2,3) by (meson list.set_intros(1))
    moreover from Cons.prems(1) Next have "after_loop (for_loop body js t) = Some s'" by simp
    ultimately show ?thesis using Cons.IH Cons.prems(3) by (meson list.set_intros(2))
  next
    case (Break t)
    with Cons.prems(1) have "after_loop (body j s) = Some s'" by (simp add: after_loop_def)
    then show ?thesis using Cons.prems(2,3) by (meson list.set_intros(1))
  next
    case (Fini t)
    with Cons.prems(1) have "after_loop (body j s) = Some s'" by (simp add: after_loop_def)
    then show ?thesis using Cons.prems(2,3) by (meson list.set_intros(1))
  next
    case Fault
    with Cons.prems(1) show ?thesis by (simp add: after_loop_def)
  qed
qed

lemma weight_loop_inv:
  assumes "weight_loop body nwts s = Some s'" and "P s"
    and "\<And>nwt t t'. nwt \<in> set nwts \<Longrightarrow> P t \<Longrightarrow> body nwt t = Some t' \<Longrightarrow> P t'"
  shows "P s'"
  using assms
proof (induction nwts arbitrary: s)
  case Nil
  then show ?case by simp
next
  case (Cons nwt nwts)
  show ?case
  proof (cases "all_done s")
    case True
    with Cons.prems show ?thesis by simp
  next
    case False
    with Cons.prems(1) obtain t where t: "body nwt s = Some t"
      and rest: "weight_loop body nwts t = Some s'"
      by (auto split: option.splits)
    from t Cons.prems(2,3) have "P t" by (meson list.set_intros(1))
    with rest show ?thesis using Cons.IH Cons.prems(3) by (meson list.set_intros(2))
  qed
qed

subsection \<open>The weight list\<close>

lemma node_weight_add_bitmaps:
  assumes "nwt \<in> set (node_weight_add l w i)"
  shows "nwt \<in> set l \<or> (\<exists>old \<in> set l. nwt_node_bitmap nwt = insert i (nwt_node_bitmap old))
         \<or> nwt_node_bitmap nwt = {i}"
  using assms by (induction l w i rule: node_weight_add.induct) (auto simp: bit_set_def split: if_splits)

lemma fold_node_weight_add_bitmaps:
  assumes "nwt \<in> set (fold (\<lambda>i l. node_weight_add l (f i) i) js l0)"
    and "\<forall>x \<in> set l0. nwt_node_bitmap x \<subseteq> B" and "set js \<subseteq> B"
  shows "nwt_node_bitmap nwt \<subseteq> B"
  using assms
proof (induction js arbitrary: l0)
  case Nil
  then show ?case by simp
next
  case (Cons j js)
  have "\<forall>x \<in> set (node_weight_add l0 (f j) j). nwt_node_bitmap x \<subseteq> B"
  proof
    fix x assume "x \<in> set (node_weight_add l0 (f j) j)"
    from node_weight_add_bitmaps [OF this] Cons.prems(2,3)
    show "nwt_node_bitmap x \<subseteq> B" by fastforce
  qed
  with Cons show ?case by simp
qed

lemma build_node_weight_list_subset:
  assumes "nwt \<in> set (build_node_weight_list G bm)"
  shows "nwt_node_bitmap nwt \<subseteq> bm"
proof -
  from assms have "nwt \<in> set (fold (\<lambda>i l. node_weight_add l
         (sched_weight (node_record_table_ptr G i)) i) (bit_indices (node_record_count G) bm) [])"
    by (simp add: build_node_weight_list_def)
  then show ?thesis
    by (rule fold_node_weight_add_bitmaps) (auto simp: bit_indices_def)
qed

subsection \<open>One tier adds nodes of the tier only\<close>

lemma adds_from_refl: "adds_from B t t"
  by (simp add: adds_from_def)

lemma adds_from_trans: "adds_from B t t1 \<Longrightarrow> adds_from B t1 t2 \<Longrightarrow> adds_from B t t2"
  by (auto simp: adds_from_def)

lemma after_admission_fields:
  assumes "after_loop (after_admission X t) = Some t'"
  shows "job_ptr t' = job_ptr t" "node_map t' = node_map t"
  using assms by (auto simp: after_admission_def after_loop_def split: if_splits)

lemma spread_step_adds:
  assumes "after_loop (spread_step c G X nwt i t) = Some t'"
  shows "adds_from (nwt_node_bitmap nwt) t t'"
proof (cases "avail_res_array t i")
  case None
  with assms show ?thesis by (simp add: spread_step_def after_loop_def adds_from_def)
next
  case (Some ar)
  show ?thesis
  proof (cases "avail_cpus ar = 0 \<or> \<not> bit_test (nwt_node_bitmap nwt) i \<or> bit_test (node_map t) i")
    case True
    with assms Some show ?thesis by (auto simp: spread_step_def after_loop_def adds_from_def split: if_splits)
  next
    case False
    then have i: "i \<in> nwt_node_bitmap nwt" by (simp add: bit_test_def)
    from assms Some False obtain t1 where p: "probe c G X t i = Some t1"
      by (auto simp: spread_step_def after_loop_def split: option.splits)
    define t2 where "t2 = (if gres_per_job t1 then gres_add X t1 i else t1)"
    have t2: "job_ptr t2 = job_ptr t" "node_map t2 = node_map t"
      by (simp_all add: t2_def gres_add_fields probe_fields [OF p])
    show ?thesis
    proof (cases "te_avail_cpus t2 = 0")
      case True
      with assms Some False p have "t' = t2"
        by (simp add: spread_step_def after_loop_def t2_def Let_def)
      with t2 show ?thesis by (simp add: adds_from_def)
    next
      case z: False
      with assms Some False p
      have "after_loop (after_admission X ((count_node t2)\<lparr>node_map := bit_set (node_map t2) i\<rparr>))
              = Some t'"
        by (simp add: spread_step_def t2_def Let_def)
      from after_admission_fields [OF this] t2 i show ?thesis
        by (auto simp: adds_from_def count_node_fields bit_set_def)
    qed
  qed
qed

lemma busy_step_adds:
  assumes "after_loop (busy_step c G X nwt idle_test i t) = Some t'"
  shows "adds_from (nwt_node_bitmap nwt) t t'"
proof (cases "avail_res_array t i")
  case None
  with assms show ?thesis by (simp add: busy_step_def after_loop_def adds_from_def)
next
  case (Some ar)
  show ?thesis
  proof (cases "avail_cpus ar = 0 \<or> \<not> bit_test (nwt_node_bitmap nwt) i \<or> bit_test (node_map t) i
                \<or> (idle_test = 0 \<and> bit_test (idle_node_bitmap G) i)
                \<or> (idle_test = 1 \<and> \<not> bit_test (idle_node_bitmap G) i)")
    case True
    with assms Some show ?thesis by (auto simp: busy_step_def after_loop_def adds_from_def split: if_splits)
  next
    case False
    then have i: "i \<in> nwt_node_bitmap nwt" by (simp add: bit_test_def)
    from assms Some False obtain t1 where p: "probe c G X t i = Some t1"
      by (auto simp: busy_step_def after_loop_def split: option.splits)
    define t2 where "t2 = (if gres_per_job t1 then gres_add X t1 i else t1)"
    have t2: "job_ptr t2 = job_ptr t" "node_map t2 = node_map t"
      by (simp_all add: t2_def gres_add_fields probe_fields [OF p])
    show ?thesis
    proof (cases "te_avail_cpus t2 = 0")
      case True
      with assms Some False p have "t' = t2"
        by (auto simp: busy_step_def after_loop_def t2_def Let_def split: if_splits)
      with t2 show ?thesis by (simp add: adds_from_def)
    next
      case z: False
      with assms Some False p
      have "after_loop (after_admission X ((count_node t2)\<lparr>node_map := bit_set (node_map t2) i\<rparr>))
              = Some t'"
        by (auto simp: busy_step_def t2_def Let_def split: if_splits)
      from after_admission_fields [OF this] t2 i show ?thesis
        by (auto simp: adds_from_def count_node_fields bit_set_def)
    qed
  qed
qed

lemma serial_step_adds:
  assumes "after_loop (serial_step c G X nwt i t) = Some t'"
  shows "adds_from (nwt_node_bitmap nwt) t t'"
proof (cases "\<not> te_max_nodes t > 0")
  case True
  with assms show ?thesis by (simp add: serial_step_def after_loop_def adds_from_def)
next
  case mx: False
  show ?thesis
  proof (cases "avail_res_array t i")
    case None
    with assms mx show ?thesis by (simp add: serial_step_def after_loop_def adds_from_def)
  next
    case (Some ar)
    show ?thesis
    proof (cases "avail_cpus ar = 0 \<or> \<not> bit_test (nwt_node_bitmap nwt) i \<or> bit_test (node_map t) i")
      case True
      with assms Some mx show ?thesis by (auto simp: serial_step_def after_loop_def adds_from_def split: if_splits)
    next
      case False
      then have i: "i \<in> nwt_node_bitmap nwt" by (simp add: bit_test_def)
      from assms Some False mx obtain t1 where p: "probe c G X t i = Some t1"
        by (auto simp: serial_step_def after_loop_def split: option.splits)
      note f = probe_fields [OF p]
      show ?thesis
      proof (cases "te_avail_cpus t1 = 0")
        case True
        with assms Some False p mx have "t' = t1"
          by (simp add: serial_step_def after_loop_def)
        with f show ?thesis by (simp add: adds_from_def)
      next
        case z: False
        define t2 where "t2 = (count_node t1)\<lparr>node_map := bit_set (node_map t1) i\<rparr>"
        define t3 where "t3 = (if gres_per_job t2 then gres_add X t2 i else t2)"
        have t3: "job_ptr t3 = job_ptr t" "node_map t3 = insert i (node_map t)"
          by (simp_all add: t3_def t2_def gres_add_fields count_node_fields f bit_set_def)
        from assms Some False p mx z
        have "after_loop (after_admission X t3) = Some t'"
          by (cases "gres_per_job t1")
            (simp_all add: serial_step_def t2_def t3_def Let_def count_node_fields)
        from after_admission_fields [OF this] t3 i show ?thesis
          by (auto simp: adds_from_def)
      qed
    qed
  qed
qed

lemma for_loop_adds:
  assumes "after_loop (for_loop body js t) = Some t'"
    and "\<And>i u u'. after_loop (body i u) = Some u' \<Longrightarrow> adds_from B u u'"
  shows "adds_from B t t'"
  using assms(1)
proof (rule for_loop_inv [where P = "adds_from B t"])
  show "adds_from B t t" by (rule adds_from_refl)
next
  fix i u u'
  assume "adds_from B t u" "after_loop (body i u) = Some u'"
  then show "adds_from B t u'" using assms(2) adds_from_trans by blast
qed

lemma busy_tier_adds:
  assumes "busy_tier c G X idxs nwt t = Some t'"
  shows "adds_from (nwt_node_bitmap nwt) t t'"
proof -
  from assms obtain t1 where 1: "after_loop (for_loop (busy_step c G X nwt 0) idxs t) = Some t1"
    and 2: "after_loop (for_loop (busy_step c G X nwt 1) idxs t1) = Some t'"
    by (auto simp: busy_tier_def split: option.splits)
  have "adds_from (nwt_node_bitmap nwt) t t1"
    using 1 by (rule for_loop_adds) (rule busy_step_adds)
  moreover have "adds_from (nwt_node_bitmap nwt) t1 t'"
    using 2 by (rule for_loop_adds) (rule busy_step_adds)
  ultimately show ?thesis by (rule adds_from_trans)
qed

lemma lln_scan_step_inv:
  assumes "after_loop (lln_scan_step c G X nwt l j (u, mu, au)) = Some (u', mu', au')"
  shows "node_map u' = node_map u \<and> job_ptr u' = job_ptr u \<and>
         (mu' = mu \<or> (mu' = Some j \<and> j \<in> nwt_node_bitmap nwt \<and> j \<notin> node_map u))"
proof (cases "\<not> bit_test (nwt_node_bitmap nwt) j \<or> bit_test (node_map u) j")
  case True
  with assms show ?thesis by (auto simp: lln_scan_step_def after_loop_def)
next
  case False
  then have nj: "j \<notin> node_map u" "j \<in> nwt_node_bitmap nwt" by (simp_all add: bit_test_def)
  show ?thesis
  proof (cases "probe c G X u j")
    case None
    with assms False show ?thesis by (simp add: lln_scan_step_def after_loop_def)
  next
    case (Some u1)
    note f = probe_fields [OF Some]
    from assms False Some show ?thesis
      using f(1,3) nj
      by (auto simp: lln_scan_step_def after_loop_def
          split: if_splits option.splits bool.splits)
  qed
qed

lemma lln_scan_inv:
  assumes "after_loop (for_loop (lln_scan_step c G X nwt l) js (t, m, a)) = Some (t', m', a')"
  shows "node_map t' = node_map t \<and> job_ptr t' = job_ptr t \<and>
         (m' = m \<or> (\<exists>j. m' = Some j \<and> j \<in> nwt_node_bitmap nwt \<and> j \<notin> node_map t))"
proof -
  let ?P = "\<lambda>(u, mu, au). node_map u = node_map t \<and> job_ptr u = job_ptr t \<and>
         (mu = m \<or> (\<exists>j. mu = Some j \<and> j \<in> nwt_node_bitmap nwt \<and> j \<notin> node_map t))"
  have "?P (t', m', a')"
    using assms
  proof (rule for_loop_inv [where P = ?P])
    show "?P (t, m, a)" by simp
  next
    fix i x x'
    assume P: "?P x" and st: "after_loop (lln_scan_step c G X nwt l i x) = Some x'"
    obtain u mu au where x: "x = (u, mu, au)" by (cases x)
    obtain u' mu' au' where x': "x' = (u', mu', au')" by (cases x')
    from lln_scan_step_inv [OF st [unfolded x x']] P show "?P x'"
      unfolding x x' by auto
  qed
  then show ?thesis by simp
qed

lemma lln_while_adds:
  assumes "lln_while c G X idxs nwt l s = Some s'"
  shows "adds_from (nwt_node_bitmap nwt) s s'"
  using assms
proof (induction c G X idxs nwt l s arbitrary: s' rule: lln_while.induct)
  case (1 c G X idxs nwt l s)
  note eq = lln_while.simps [of c G X idxs nwt l s]
  show ?case
  proof (cases "all_done s")
    case True
    with "1.prems" eq have "s' = s" by simp
    then show ?thesis by (simp add: adds_from_refl)
  next
    case nd: False
    show ?thesis
    proof (cases "after_loop (for_loop (lln_scan_step c G X nwt l) idxs (s, None, 0))")
      case None
      with "1.prems" eq nd show ?thesis by simp
    next
      case (Some r)
      obtain s1 m av where r: "r = (s1, m, av)" by (cases r)
      from lln_scan_inv [OF Some [unfolded r]]
      have s1: "node_map s1 = node_map s" "job_ptr s1 = job_ptr s"
        and m: "m = None \<or> (\<exists>j. m = Some j \<and> j \<in> nwt_node_bitmap nwt \<and> j \<notin> node_map s)"
        by auto
      have base: "adds_from (nwt_node_bitmap nwt) s s1"
        using s1 by (simp add: adds_from_def)
      show ?thesis
      proof (cases m)
        case None
        with "1.prems" eq nd Some r have "s' = s1" by simp
        with base show ?thesis by simp
      next
        case (Some i)
        with m have i: "i \<in> nwt_node_bitmap nwt" by simp
        show ?thesis
        proof (cases "av = 0")
          case True
          with "1.prems" eq nd \<open>after_loop _ = Some r\<close> r Some have "s' = s1" by simp
          with base show ?thesis by simp
        next
          case av: False
          define s3 where "s3 = lln_admit X s1 i av"
          have s3: "node_map s3 = insert i (node_map s)" "job_ptr s3 = job_ptr s"
            by (simp_all add: s3_def lln_admit_def Let_def gres_add_fields count_node_fields
                s1 bit_set_def)
          show ?thesis
          proof (cases "avail_res_array s3 i")
            case None
            with "1.prems" eq nd \<open>after_loop _ = Some r\<close> r Some av show ?thesis
              by (simp add: s3_def)
          next
            case ar: (Some ar)
            from "1.prems" eq nd \<open>after_loop _ = Some r\<close> r Some av ar
            have res: "(case after_admission X s3 of
                         Next s4 \<Rightarrow> lln_while c G X idxs nwt (uint (max_cpus ar)) s4
                       | Break s4 \<Rightarrow> Some s4 | Fini s4 \<Rightarrow> Some s4 | Fault \<Rightarrow> None) = Some s'"
              by (simp add: s3_def)
            show ?thesis
            proof (cases "after_admission X s3")
              case (Next s4)
              then have "after_loop (after_admission X s3) = Some s4" by (simp add: after_loop_def)
              from after_admission_fields [OF this] s3 i
              have a: "adds_from (nwt_node_bitmap nwt) s s4" by (auto simp: adds_from_def)
              from res Next have w: "lln_while c G X idxs nwt (uint (max_cpus ar)) s4 = Some s'"
                by simp
              have "adds_from (nwt_node_bitmap nwt) s4 s'"
                using nd \<open>after_loop _ = Some r\<close> r [symmetric] Some av ar Next w
                by (intro "1.IH" [where ?x2.0 = "(s1, m, av)" and ?x = s1 and ?y = "(m, av)"
                      and ?xa = m and ?ya = av and ?x2a = i and ?x2b = ar])
                   (auto simp: s3_def)
              with a show ?thesis by (rule adds_from_trans)
            next
              case (Break s4)
              with res have "s' = s4" by simp
              moreover from Break have "after_loop (after_admission X s3) = Some s4"
                by (simp add: after_loop_def)
              from after_admission_fields [OF this] s3 i
              have "adds_from (nwt_node_bitmap nwt) s s4" by (auto simp: adds_from_def)
              ultimately show ?thesis by simp
            next
              case (Fini s4)
              with res have "s' = s4" by simp
              moreover from Fini have "after_loop (after_admission X s3) = Some s4"
                by (simp add: after_loop_def)
              from after_admission_fields [OF this] s3 i
              have "adds_from (nwt_node_bitmap nwt) s s4" by (auto simp: adds_from_def)
              ultimately show ?thesis by simp
            next
              case Fault
              with res show ?thesis by simp
            qed
          qed
        qed
      qed
    qed
  qed
qed

subsection \<open>The required nodes\<close>

lemma strategy_entry_fields:
  "node_map (strategy_entry c X te) = node_map te"
  "job_ptr (strategy_entry c X te) = job_ptr te"
  "orig_node_map (strategy_entry c X te) = node_map te"
  "error_code (strategy_entry c X te) = SLURM_ERROR"
  "total_cpus (strategy_entry c X te) = 0"
  "all_done (strategy_entry c X te) = False"
  by (simp_all add: strategy_entry_def Let_def case_prod_beta)

lemma keeps_refl: "keeps req t t"
  by (simp add: keeps_def)

lemma keeps_trans: "keeps req t t1 \<Longrightarrow> keeps req t1 t2 \<Longrightarrow> keeps req t t2"
  by (auto simp: keeps_def)

lemma required_node_step_keeps:
  assumes "after_loop (required_node_step c G X req i t) = Some t'"
  shows "keeps req t t'"
proof (cases "bit_test req i")
  case False
  with assms have "t' = t\<lparr>node_map := bit_clear (node_map t) i\<rparr>"
    by (simp add: required_node_step_def after_loop_def)
  with False show ?thesis by (auto simp: keeps_def bit_clear_def bit_test_def)
next
  case True
  show ?thesis
  proof (cases "avail_res_array t i")
    case None
    with assms True show ?thesis by (simp add: required_node_step_def after_loop_def keeps_refl)
  next
    case (Some ar)
    show ?thesis
    proof (cases "avail_cpus ar = 0 \<or> te_max_nodes t \<le> 0")
      case stop: True
      with assms True Some have "t' = t"
        by (auto simp: required_node_step_def after_loop_def split: if_splits)
      then show ?thesis by (simp add: keeps_refl)
    next
      case go: False
      with assms True Some obtain t1 where p: "probe c G X t i = Some t1"
        by (auto simp: required_node_step_def after_loop_def split: option.splits if_splits)
      note f = probe_fields [OF p]
      define t2 where "t2 = (if gres_per_job t1 then gres_add X t1 i else t1)"
      have k2: "keeps req t t2"
        by (simp add: keeps_def t2_def gres_add_fields f)
      have "t' = t2 \<or> t' = count_node t2"
        using assms True Some go p
        by (auto simp: required_node_step_def after_loop_def t2_def Let_def split: if_splits)
      with k2 show ?thesis by (auto simp: keeps_def count_node_fields)
    qed
  qed
qed

lemma required_loop_keeps:
  assumes "after_loop (for_loop (required_node_step c G X req) js t) = Some t'"
  shows "keeps req t t'"
  using assms
proof (rule for_loop_inv [where P = "keeps req t"])
  show "keeps req t t" by (rule keeps_refl)
next
  fix i u u'
  assume "keeps req t u" "after_loop (required_node_step c G X req i u) = Some u'"
  then show "keeps req t u'" using required_node_step_keeps keeps_trans by blast
qed

text \<open>The state in which the function is left, or goes on to the weight tiers.\<close>

lemma required_nodes_inv:
  assumes "after_loop (required_nodes c G X i_start i_end t) = Some t'"
  shows "job_ptr t' = job_ptr t" "node_map t' \<subseteq> node_map t"
    "orig_node_map t' \<subseteq> orig_node_map t"
    "d_req_node_bitmap (details (job_ptr t)) = Some req \<Longrightarrow> node_map t \<inter> req \<subseteq> node_map t'"
proof -
  have "job_ptr t' = job_ptr t \<and> node_map t' \<subseteq> node_map t \<and>
        orig_node_map t' \<subseteq> orig_node_map t \<and>
        (d_req_node_bitmap (details (job_ptr t)) = Some req \<longrightarrow> node_map t \<inter> req \<subseteq> node_map t')"
  proof (cases "d_req_node_bitmap (details (job_ptr t))")
    case None
    with assms have "t' = t\<lparr>node_map := bit_clear_all (node_map t)\<rparr>"
      by (simp add: required_nodes_def after_loop_def)
    with None show ?thesis by (simp add: bit_clear_all_def)
  next
    case (Some rq)
    let ?r = "for_loop (required_node_step c G X rq) (index_range i_start i_end) t"
    show ?thesis
    proof (cases ?r)
      case (Next t1)
      then have "after_loop ?r = Some t1" by (simp add: after_loop_def)
      from required_loop_keeps [OF this] have k: "keeps rq t t1" .
      from assms Some Next
      have "t' = t1\<lparr>error_code := SLURM_SUCCESS, node_map := bit_and (node_map t1) rq\<rparr> \<or>
            t' = t1\<lparr>error_code := SLURM_ERROR\<rparr> \<or>
            t' = t1\<lparr>orig_node_map := bit_and_not (orig_node_map t1) (node_map t1)\<rparr>"
        by (auto simp: required_nodes_def after_loop_def split: if_splits)
      with k Some show ?thesis
        by (auto simp: keeps_def bit_and_def bit_and_not_def)
    next
      case (Break t1)
      with assms Some have "after_loop ?r = Some t'" by (simp add: required_nodes_def after_loop_def)
      from required_loop_keeps [OF this] Some show ?thesis by (auto simp: keeps_def)
    next
      case (Fini t1)
      with assms Some have "after_loop ?r = Some t'" by (simp add: required_nodes_def after_loop_def)
      from required_loop_keeps [OF this] Some show ?thesis by (auto simp: keeps_def)
    next
      case Fault
      with assms Some show ?thesis by (simp add: required_nodes_def after_loop_def)
    qed
  qed
  then show "job_ptr t' = job_ptr t" "node_map t' \<subseteq> node_map t"
    "orig_node_map t' \<subseteq> orig_node_map t"
    "d_req_node_bitmap (details (job_ptr t)) = Some req \<Longrightarrow> node_map t \<inter> req \<subseteq> node_map t'"
    by auto
qed

lemma admit_required_inv:
  assumes "after_loop (admit_required c G X te) = Some s"
  shows "job_ptr s = job_ptr te" "node_map s \<subseteq> node_map te" "orig_node_map s \<subseteq> node_map te"
    "d_req_node_bitmap (details (job_ptr te)) = Some req \<Longrightarrow> node_map te \<inter> req \<subseteq> node_map s"
proof -
  let ?e = "strategy_entry c X te"
  let ?r = "required_nodes c G X (i_start_of G te) (i_end_of G te) ?e"
  from assms obtain s1 where s1: "after_loop ?r = Some s1"
    and s: "s = s1 \<or> s = s1\<lparr>all_done := True\<rparr>"
    by (cases ?r)
       (auto simp: admit_required_def Let_def after_loop_def max_cpu_limit_def split: if_splits)
  note inv = required_nodes_inv [OF s1, unfolded strategy_entry_fields]
  from s inv(1) show "job_ptr s = job_ptr te" by auto
  from s inv(2) show "node_map s \<subseteq> node_map te" by auto
  from s inv(3) show "orig_node_map s \<subseteq> node_map te" by auto
  assume "d_req_node_bitmap (details (job_ptr te)) = Some req"
  from inv(4) [OF this] s show "node_map te \<inter> req \<subseteq> node_map s" by auto
qed

subsection \<open>A strategy as a whole\<close>

lemma strategy_final_cases:
  assumes "strategy_final X s = (r, s')"
  shows "(r = SLURM_SUCCESS \<and> node_map s' = node_map s \<and> job_ptr s' = job_ptr s) \<or>
         (r = SLURM_ERROR \<and> node_map s' = {} \<and> job_ptr s' = job_ptr s)"
  using assms by (auto simp: strategy_final_def bit_clear_all_def split: if_splits)

lemma run_strategy_inv:
  assumes body: "\<And>nwt t t'. body nwt t = Some t' \<Longrightarrow> adds_from (nwt_node_bitmap nwt) t t'"
    and run: "run_strategy c G X body te = Some (r, s')"
  shows "node_map s' \<subseteq> node_map te"
    and "job_ptr s' = job_ptr te"
    and "r = SLURM_SUCCESS \<Longrightarrow> d_req_node_bitmap (details (job_ptr te)) = Some req
           \<Longrightarrow> node_map te \<inter> req \<subseteq> node_map s'"
proof -
  have "node_map s' \<subseteq> node_map te \<and> job_ptr s' = job_ptr te \<and>
        (r = SLURM_SUCCESS \<longrightarrow> d_req_node_bitmap (details (job_ptr te)) = Some req
           \<longrightarrow> node_map te \<inter> req \<subseteq> node_map s')"
  proof (cases "admit_required c G X te")
    case (Next s)
    then have "after_loop (admit_required c G X te) = Some s" by (simp add: after_loop_def)
    note a = admit_required_inv [OF this]
    from run Next obtain s1 where
      w: "weight_loop body (build_node_weight_list G (orig_node_map s)) s = Some s1"
      and fin: "strategy_final X s1 = (r, s')"
      by (auto simp: run_strategy_def split: option.splits)
    let ?P = "\<lambda>t. job_ptr t = job_ptr te \<and> node_map s \<subseteq> node_map t \<and> node_map t \<subseteq> node_map te"
    have "?P s1"
      using w
    proof (rule weight_loop_inv [where P = ?P])
      show "?P s" using a by simp
    next
      fix nwt t t'
      assume nwt: "nwt \<in> set (build_node_weight_list G (orig_node_map s))"
        and P: "?P t" and b: "body nwt t = Some t'"
      from build_node_weight_list_subset [OF nwt] a(3)
      have "nwt_node_bitmap nwt \<subseteq> node_map te" by blast
      with body [OF b] P show "?P t'" by (auto simp: adds_from_def)
    qed
    with strategy_final_cases [OF fin] a show ?thesis by (auto; blast)
  next
    case (Break s)
    then have "after_loop (admit_required c G X te) = Some s" by (simp add: after_loop_def)
    note a = admit_required_inv [OF this]
    from run Break have "s' = s" by (simp add: run_strategy_def)
    with a show ?thesis by auto
  next
    case (Fini s)
    then have "after_loop (admit_required c G X te) = Some s" by (simp add: after_loop_def)
    note a = admit_required_inv [OF this]
    from run Fini have "s' = s" by (simp add: run_strategy_def)
    with a show ?thesis by auto
  next
    case Fault
    with run show ?thesis by (simp add: run_strategy_def)
  qed
  then show "node_map s' \<subseteq> node_map te" "job_ptr s' = job_ptr te"
    "r = SLURM_SUCCESS \<Longrightarrow> d_req_node_bitmap (details (job_ptr te)) = Some req
           \<Longrightarrow> node_map te \<inter> req \<subseteq> node_map s'"
    by auto
qed

lemma spread_body_adds:
  "after_loop (for_loop (spread_step c G X nwt) js t) = Some t'
     \<Longrightarrow> adds_from (nwt_node_bitmap nwt) t t'"
  by (erule for_loop_adds) (rule spread_step_adds)

lemma serial_body_adds:
  "after_loop (for_loop (serial_step c G X nwt) js t) = Some t'
     \<Longrightarrow> adds_from (nwt_node_bitmap nwt) t t'"
  by (erule for_loop_adds) (rule serial_step_adds)

lemma lln_body_adds:
  "lln_while c G X js nwt (- 1) t = Some t' \<Longrightarrow> adds_from (nwt_node_bitmap nwt) t t'"
  by (rule lln_while_adds)

lemma spread_after_loop_adds:
  "after_loop (for_loop (spread_step c G X nwt) js t) = Some t'
     \<Longrightarrow> adds_from (nwt_node_bitmap nwt) t t'"
  by (rule spread_body_adds)

text \<open>Each of the four strategies is the shared skeleton around a body that adds tier nodes.\<close>

lemma simple_strategy_is_run:
  assumes "f = eval_nodes_busy \<or> f = eval_nodes_lln \<or> f = eval_nodes_serial \<or> f = eval_nodes_spread"
  shows "\<exists>body. f c G X te = run_strategy c G X body te \<and>
           (\<forall>nwt t t'. body nwt t = Some t' \<longrightarrow> adds_from (nwt_node_bitmap nwt) t t')"
proof -
  let ?js = "index_range (i_start_of G te) (i_end_of G te)"
  from assms consider "f = eval_nodes_busy" | "f = eval_nodes_lln" | "f = eval_nodes_serial"
    | "f = eval_nodes_spread" by blast
  then show ?thesis
  proof cases
    case 1
    show ?thesis
      by (rule exI [where x = "busy_tier c G X ?js"])
         (auto simp: 1 eval_nodes_busy_def intro: busy_tier_adds)
  next
    case 2
    show ?thesis
      by (rule exI [where x = "\<lambda>nwt s. lln_while c G X ?js nwt (- 1) s"])
         (auto simp: 2 eval_nodes_lln_def intro: lln_while_adds)
  next
    case 3
    show ?thesis
      by (rule exI [where x = "\<lambda>nwt s. after_loop (for_loop (serial_step c G X nwt) (rev ?js) s)"])
         (auto simp: 3 eval_nodes_serial_def intro: serial_body_adds)
  next
    case 4
    show ?thesis
      by (rule exI [where x = "\<lambda>nwt s. after_loop (for_loop (spread_step c G X nwt) ?js s)"])
         (auto simp: 4 eval_nodes_spread_def intro: spread_body_adds)
  qed
qed

lemma run_strategy_error_clears:
  assumes "run_strategy c G X body te = Some (SLURM_ERROR, s')"
    and "admit_required c G X te = Next s"
  shows "node_map s' = {}"
proof -
  from assms obtain s1 where "strategy_final X s1 = (SLURM_ERROR, s')"
    by (auto simp: run_strategy_def split: option.splits)
  from strategy_final_cases [OF this] show ?thesis by simp
qed

lemma admit_required_without_req:
  assumes "d_req_node_bitmap (details (job_ptr te)) = None"
  shows "\<exists>s. admit_required c G X te = Next s"
proof -
  let ?e = "strategy_entry c X te"
  have r: "required_nodes c G X (i_start_of G te) (i_end_of G te) ?e
           = Next (?e\<lparr>node_map := bit_clear_all (node_map ?e)\<rparr>)"
    using assms by (simp add: required_nodes_def strategy_entry_fields)
  have "max_cpu_limit c (?e\<lparr>node_map := bit_clear_all (node_map ?e)\<rparr>)
        = Next (?e\<lparr>node_map := bit_clear_all (node_map ?e)\<rparr>)"
    by (simp add: max_cpu_limit_def strategy_entry_fields word_less_def)
  with r show ?thesis by (simp add: admit_required_def Let_def)
qed

subsection \<open>Failure of busy, lln, serial and spread\<close>

text \<open>
  C2 (as amended).  For each of the busy, lln, serial and spread strategies, a failure
  return that is reached after the required nodes were admitted (the function went on
  to the weight tiers and failed its final test of the remainders) leaves \<open>node_map\<close>
  entirely cleared; every failure return is of this kind when the job carries no
  \<open>req_node_bitmap\<close>.  The failure returns taken while or right after the required
  nodes are admitted jump to \<open>fini\<close> and are not covered.
\<close>

theorem failure_clears_node_map:
  assumes "f = eval_nodes_busy \<or> f = eval_nodes_lln \<or> f = eval_nodes_serial \<or> f = eval_nodes_spread"
    and "f c G X te = Some (SLURM_ERROR, s')"
    and "(\<exists>s. admit_required c G X te = Next s) \<or> d_req_node_bitmap (details (job_ptr te)) = None"
  shows "node_map s' = {}"
proof -
  from simple_strategy_is_run [OF assms(1)] obtain body
    where "f c G X te = run_strategy c G X body te" by blast
  with assms(2) have run: "run_strategy c G X body te = Some (SLURM_ERROR, s')" by simp
  from assms(3) admit_required_without_req obtain s where "admit_required c G X te = Next s"
    by blast
  with run show ?thesis by (rule run_strategy_error_clears)
qed

theorem failure_clears_node_map_witness:
  "d_req_node_bitmap (details (job_ptr te_hungry)) = None
   \<and> outcome G0 (eval_nodes_lln slurm_h G0 X0 te_hungry) = Some (SLURM_ERROR, [])"
proof -
  have h: "d_req_node_bitmap (details (job_ptr te_hungry)) = None"
    by (simp add: te_hungry_def job0_def details0_def)
  have "map_option fst (eval_nodes_lln slurm_h G0 X0 te_hungry) = Some SLURM_ERROR"
    by code_simp
  then obtain s' where s': "eval_nodes_lln slurm_h G0 X0 te_hungry = Some (SLURM_ERROR, s')"
    by (cases "eval_nodes_lln slurm_h G0 X0 te_hungry") auto
  have "node_map s' = {}"
    using failure_clears_node_map [of eval_nodes_lln slurm_h G0 X0 te_hungry s'] s' h by simp
  with s' h show ?thesis by (simp add: outcome_def bit_indices_def)
qed

text \<open>
  C2 as stated fails: when the required node 1 has no CPU left, or \<open>max_nodes\<close> is 0
  when it is to be admitted, the strategies return an error with nodes 1 and 2 still set
  (only the bit of node 0, met before the required node, was cleared).
\<close>

theorem failure_keeps_node_map_counterexample:
  "outcome G0 (eval_nodes_busy slurm_h G0 X0 te_required_down) = Some (SLURM_ERROR, [1, 2])
   \<and> outcome G0 (eval_nodes_lln slurm_h G0 X0 te_required_down) = Some (SLURM_ERROR, [1, 2])
   \<and> outcome G0 (eval_nodes_serial slurm_h G0 X0 te_required_down) = Some (SLURM_ERROR, [1, 2])
   \<and> outcome G0 (eval_nodes_spread slurm_h G0 X0 te_required_down) = Some (SLURM_ERROR, [1, 2])
   \<and> outcome G0 (eval_nodes_lln slurm_h G0 X0 te_required_over) = Some (SLURM_ERROR, [1, 2])"
  by code_simp

subsection \<open>Selected nodes of busy, lln, serial and spread\<close>

text \<open>
  When \<open>eval_nodes\<close> hands the request to busy, lln, serial or spread and the strategy
  succeeds, the selected nodes are candidates and every required node is selected.
\<close>

lemma simple_selection:
  assumes run: "eval_nodes c G X others te = Some (SLURM_SUCCESS, s')"
    and st: "eval_nodes_strategy c G te = Some st" "st \<in> {Spread, Busy, LLN, Serial}"
  shows "node_map s' \<subseteq> node_map te \<and>
         (\<forall>req. d_req_node_bitmap (details (job_ptr te)) = Some req \<longrightarrow> req \<subseteq> node_map s')"
proof -
  define f where "f = (case st of Spread \<Rightarrow> eval_nodes_spread | Busy \<Rightarrow> eval_nodes_busy
     | LLN \<Rightarrow> eval_nodes_lln | _ \<Rightarrow> (eval_nodes_serial
        :: slurm_consts \<Rightarrow> globals \<Rightarrow> 'a externals \<Rightarrow> 'a topology_eval
             \<Rightarrow> (rc \<times> 'a topology_eval) option))"
  from st(2) have f: "f = eval_nodes_busy \<or> f = eval_nodes_lln \<or> f = eval_nodes_serial
      \<or> f = eval_nodes_spread"
    by (auto simp: f_def)
  from run st have fr: "f c G X te = Some (SLURM_SUCCESS, s')"
    by (auto simp: eval_nodes_def f_def)
  from simple_strategy_is_run [OF f, of c G X te] obtain body
    where b0: "f c G X te = run_strategy c G X body te"
      and b1: "\<forall>nwt t t'. body nwt t = Some t' \<longrightarrow> adds_from (nwt_node_bitmap nwt) t t'"
    by blast
  from b1 have body: "\<And>nwt t t'. body nwt t = Some t' \<Longrightarrow> adds_from (nwt_node_bitmap nwt) t t'"
    by blast
  from b0 fr have r: "run_strategy c G X body te = Some (SLURM_SUCCESS, s')" by simp
  have i1: "node_map s' \<subseteq> node_map te"
    by (rule run_strategy_inv(1) [OF _ r]) (rule body)
  have i3: "node_map te \<inter> req \<subseteq> node_map s'"
    if "d_req_node_bitmap (details (job_ptr te)) = Some req" for req
    by (rule run_strategy_inv(3) [OF _ r refl that]) (rule body)
  have sup: "req \<subseteq> node_map te" if "d_req_node_bitmap (details (job_ptr te)) = Some req" for req
    using st(1) that
    by (auto simp: eval_nodes_strategy_def Let_def bit_super_set_def split: if_splits)
  show ?thesis
  proof (intro conjI allI impI)
    show "node_map s' \<subseteq> node_map te" by (rule i1)
  next
    fix req assume rq: "d_req_node_bitmap (details (job_ptr te)) = Some req"
    from i3 [OF rq] sup [OF rq] show "req \<subseteq> node_map s'" by blast
  qed
qed

subsection \<open>The spread strategy\<close>









subsection \<open>The lln strategy\<close>

text \<open>
  C5, at an input where the code departs from it.  Three nodes of weight 1: node 0 has 4
  CPUs of 4 available, node 1 has 4 of 8, node 2 has 3 of 4; the job asks for two nodes.
  After node 0 the scan meets node 1 first, finds its \<open>max_cpus\<close> equal to
  \<open>last_max_cpu_cnt\<close> and leaves the scan at once: node 1 (ratio 4/8) is admitted and the
  job is complete, although node 2 has the strictly higher ratio (3/4, \<open>3 \<cdot> 8 > 4 \<cdot> 4\<close>).
\<close>


theorem lln_shortcut_skips_less_loaded_node:
  "outcome G_mixed (eval_nodes_lln slurm_h G_mixed X0 te_mixed) = Some (SLURM_SUCCESS, [0, 1])
   \<and> map (\<lambda>i. (map_option max_cpus (avail_res_array te_mixed i),
                 cpus (node_record_table_ptr G_mixed i),
                 sched_weight (node_record_table_ptr G_mixed i))) [0, 1, 2]
       = [(Some 4, 4, 1), (Some 4, 8, 1), (Some 3, 4, 1)]"
  by code_simp

text \<open>The scenario of the spec itself runs as the spec says: B is chosen.\<close>

lemma lln_scenario_picks_B:
  "outcome G_ab (eval_nodes_lln slurm_h G_ab X0 te_ab) = Some (SLURM_SUCCESS, [1])"
  by code_simp

subsection \<open>Entry of the strategies\<close>

text \<open>
  C9.  The dfly strategy resets a requested leaf-switch count above 1 to 0 before it
  plans (and leaves 0 and 1 as they are); the topo strategy leaves \<open>req_switch\<close> as it
  finds it.
\<close>


theorem dfly_resets_req_switch:
  "req_switch (job_ptr (eval_nodes_dfly_entry c X time_now te))
     = (if req_switch (job_ptr te) > 1 then 0 else req_switch (job_ptr te))
   \<and> req_switch (job_ptr (eval_nodes_topo_entry c X time_now te)) = req_switch (job_ptr te)"
  by (simp add: eval_nodes_dfly_entry_def eval_nodes_topo_entry_def Let_def case_prod_beta)

theorem dfly_resets_req_switch_witness:
  "req_switch (job_ptr (eval_nodes_dfly_entry slurm_h X0 100 (te0\<lparr>job_ptr := job0\<lparr>req_switch := 3\<rparr>\<rparr>))) = 0
   \<and> req_switch (job_ptr (eval_nodes_topo_entry slurm_h X0 100 (te0\<lparr>job_ptr := job0\<lparr>req_switch := 3\<rparr>\<rparr>))) = 3"
  using dfly_resets_req_switch [of slurm_h X0 100 "te0\<lparr>job_ptr := job0\<lparr>req_switch := 3\<rparr>\<rparr>"]
  by (simp add: te0_def job0_def)

text \<open>
  C10.  At entry busy, lln, serial, spread, consec, dfly and topo set \<open>rem_nodes\<close> to
  \<open>MIN(min_nodes, req_nodes)\<close> when \<open>gres_sched_init\<close> returns true and to
  \<open>MAX(min_nodes, req_nodes)\<close> otherwise; block always takes the minimum.  So with a
  job-level GRES request a \<open>req_nodes\<close> above \<open>min_nodes\<close> is not the node target.
\<close>

theorem rem_nodes_at_entry:
  "rem_nodes (strategy_entry c X te)
     = (if snd (gres_sched_init X (gres te)) then sint (min (te_min_nodes te) (te_req_nodes te))
        else sint (max (te_min_nodes te) (te_req_nodes te)))
   \<and> rem_nodes (eval_nodes_consec_entry c X te)
     = (if snd (gres_sched_init X (gres te)) then sint (min (te_min_nodes te) (te_req_nodes te))
        else sint (max (te_min_nodes te) (te_req_nodes te)))
   \<and> rem_nodes (eval_nodes_dfly_entry c X time_now te)
     = (if snd (gres_sched_init X (gres te)) then sint (min (te_min_nodes te) (te_req_nodes te))
        else sint (max (te_min_nodes te) (te_req_nodes te)))
   \<and> rem_nodes (eval_nodes_topo_entry c X time_now te)
     = (if snd (gres_sched_init X (gres te)) then sint (min (te_min_nodes te) (te_req_nodes te))
        else sint (max (te_min_nodes te) (te_req_nodes te)))
   \<and> rem_nodes (eval_nodes_block_entry c X te)
     = sint (min (te_min_nodes te) (te_req_nodes te))
   \<and> (snd (gres_sched_init X (gres te)) \<and> te_min_nodes te < te_req_nodes te \<longrightarrow>
        rem_nodes (strategy_entry c X te) = sint (te_min_nodes te) \<and>
        rem_nodes (eval_nodes_consec_entry c X te) = sint (te_min_nodes te) \<and>
        rem_nodes (eval_nodes_dfly_entry c X time_now te) = sint (te_min_nodes te) \<and>
        rem_nodes (eval_nodes_topo_entry c X time_now te) = sint (te_min_nodes te))"
  by (auto simp: strategy_entry_def eval_nodes_consec_entry_def eval_nodes_dfly_entry_def
      eval_nodes_topo_entry_def eval_nodes_block_entry_def Let_def case_prod_beta min_def)

theorem rem_nodes_at_entry_witness:
  "snd (gres_sched_init (X0\<lparr>gres_sched_init := (\<lambda>g. (g, True))\<rparr>) (gres (te0\<lparr>te_req_nodes := 3\<rparr>)))
   \<and> te_min_nodes (te0\<lparr>te_req_nodes := 3\<rparr>) < te_req_nodes (te0\<lparr>te_req_nodes := 3\<rparr>)
   \<and> rem_nodes (strategy_entry slurm_h (X0\<lparr>gres_sched_init := (\<lambda>g. (g, True))\<rparr>)
         (te0\<lparr>te_req_nodes := 3\<rparr>)) = 1
   \<and> rem_nodes (strategy_entry slurm_h X0 (te0\<lparr>te_req_nodes := 3\<rparr>)) = 3"
  using rem_nodes_at_entry [of slurm_h "X0\<lparr>gres_sched_init := (\<lambda>g. (g, True))\<rparr>"
      "te0\<lparr>te_req_nodes := 3\<rparr>" 0]
    rem_nodes_at_entry [of slurm_h X0 "te0\<lparr>te_req_nodes := 3\<rparr>" 0]
  by (simp add: X0_def te0_def)

subsection \<open>The last block of topo and dfly\<close>







end
